theory Spec2Isabelle
  imports Main "HOL-Library.Word" "HOL-Library.AList"
begin

section \<open>Function discovery for MS-DOS MZ executables (re/scripts/discover\_functions.py)\<close>

text \<open>
  The analyser reads the whole executable into a byte buffer, parses the MZ header, scans
  the code region for prologue byte patterns and CALL instructions, merges the candidates
  into a dictionary of function records, attributes INT instructions to functions,
  estimates sizes and exports the records sorted by address.

  Addresses are file offsets: Python integers that are never negative here (the entry
  point is built from two unsigned fields, a call target is kept only when
  \<open>0 <= target\<close>), so they are \<open>nat\<close>; the one place where a negative value can arise,
  the target of a relative call, is computed in \<open>int\<close> and checked first.
  \<open>size_bytes\<close> is an \<open>int\<close>, since \<open>next_func - addr\<close> can be negative.
\<close>

subsection \<open>Bytes, errors and \<open>struct.unpack_from\<close>\<close>

type_synonym byte = "8 word"

datatype error = ValueError | StructError

definition bindE :: "error + 'a \<Rightarrow> ('a \<Rightarrow> error + 'b) \<Rightarrow> error + 'b" where
  "bindE m f = (case m of Inl e \<Rightarrow> Inl e | Inr x \<Rightarrow> f x)"

text \<open>Little-endian 16-bit values built from two bytes (formats \<open><H\<close> and \<open><h\<close>).\<close>

definition le16 :: "byte \<Rightarrow> byte \<Rightarrow> nat" where
  "le16 lo hi = unat lo + 256 * unat hi"

definition le16s :: "byte \<Rightarrow> byte \<Rightarrow> int" where
  "le16s lo hi = (if le16 lo hi < 32768 then int (le16 lo hi) else int (le16 lo hi) - 65536)"

text \<open>\<open>struct.unpack_from('<H', buf, off)[0]\<close>: raises \<open>struct.error\<close> when fewer than two
  bytes are left at \<open>off\<close>.\<close>

definition unpack_H :: "byte list \<Rightarrow> nat \<Rightarrow> error + nat" where
  "unpack_H buf off =
     (if off + 2 \<le> length buf then Inr (le16 (buf ! off) (buf ! (off + 1))) else Inl StructError)"

text \<open>The two unpacking calls of the call scan are guarded by a length check in the
  source, so they are read directly.\<close>

definition read_H :: "byte list \<Rightarrow> nat \<Rightarrow> nat" where
  "read_H buf off = le16 (buf ! off) (buf ! (off + 1))"

definition read_h :: "byte list \<Rightarrow> nat \<Rightarrow> int" where
  "read_h buf off = le16s (buf ! off) (buf ! (off + 1))"

text \<open>Python's slice \<open>buf[a:b]\<close> for non-negative \<open>a\<close> and \<open>b\<close>.\<close>

definition py_slice :: "'a list \<Rightarrow> nat \<Rightarrow> nat \<Rightarrow> 'a list" where
  "py_slice buf a b = take (b - a) (drop a buf)"

subsection \<open>Formatting addresses (\<open>f"{n:X}"\<close>, \<open>f"{n:05X}"\<close>, \<open>f"{n:02X}"\<close>)\<close>

definition hex_digit :: "nat \<Rightarrow> char" where
  "hex_digit d = ''0123456789ABCDEF'' ! d"

fun format_X :: "nat \<Rightarrow> string" where
  "format_X n = (if n < 16 then [hex_digit n] else format_X (n div 16) @ [hex_digit (n mod 16)])"

declare format_X.simps [simp del]

definition format_0X :: "nat \<Rightarrow> nat \<Rightarrow> string" where
  "format_0X w n = replicate (w - length (format_X n)) (CHR ''0'') @ format_X n"

definition hex_addr :: "nat \<Rightarrow> string" where
  "hex_addr n = ''0x'' @ format_X n"

text \<open>Reading such a string back, used to state properties of exported addresses.\<close>

definition hex_val :: "char \<Rightarrow> nat" where
  "hex_val c = length (takeWhile (\<lambda>d. d \<noteq> c) ''0123456789ABCDEF'')"

definition parse_X :: "string \<Rightarrow> nat" where
  "parse_X s = foldl (\<lambda>acc c. 16 * acc + hex_val c) 0 s"

definition parse_addr :: "string \<Rightarrow> nat" where
  "parse_addr s = parse_X (drop 2 s)"

subsection \<open>Records and the analyser object\<close>

record FunctionInfo =
  name :: string
  entry_linear :: string
  size_bytes :: int
  stack_frame_size :: int
  subsystem :: string
  callers :: "string list"
  int_usage :: "string list"
  source_recording_id :: string
  notes' :: string

text \<open>The dataclass constructor with its defaults.\<close>

definition FunctionInfo_new :: "string \<Rightarrow> string \<Rightarrow> string list \<Rightarrow> string \<Rightarrow> FunctionInfo" where
  "FunctionInfo_new nm el cl nt =
     \<lparr>name = nm, entry_linear = el, size_bytes = 0, stack_frame_size = 0,
      subsystem = ''unknown'', callers = cl, int_usage = [], source_recording_id = [],
      notes' = nt\<rparr>"

text \<open>Dictionaries are association lists with distinct keys in insertion order;
  \<open>d[k] = v\<close> is \<open>AList.update k v d\<close> (an existing key keeps its place, a new one goes
  last) and \<open>k in d\<close> is membership in the key list.\<close>

type_synonym ('k, 'v) dict = "('k \<times> 'v) list"

definition keys_of :: "('k, 'v) dict \<Rightarrow> 'k list" where
  "keys_of d = map fst d"

record DOSExeAnalyzer =
  data :: "byte list"
  e_cblp :: nat
  e_cp :: nat
  e_crlc :: nat
  e_cparhdr :: nat
  e_minalloc :: nat
  e_maxalloc :: nat
  e_ss :: nat
  e_sp :: nat
  e_csum :: nat
  e_ip :: nat
  e_cs :: nat
  e_lfarlc :: nat
  header_size :: nat
  code_start :: nat
  entry_point :: nat
  functions' :: "(nat, FunctionInfo) dict"
  call_sources :: "(nat, nat list) dict"

subsection \<open>\<open>__init__\<close> and \<open>_parse_mz_header\<close>\<close>

definition parse_mz_header :: "byte list \<Rightarrow> error + DOSExeAnalyzer" where
  "parse_mz_header buf =
     (if take 2 buf \<noteq> [0x4D, 0x5A] then Inl ValueError
      else
        bindE (unpack_H buf 2) (\<lambda>cblp.
        bindE (unpack_H buf 4) (\<lambda>cp.
        bindE (unpack_H buf 6) (\<lambda>crlc.
        bindE (unpack_H buf 8) (\<lambda>cparhdr.
        bindE (unpack_H buf 10) (\<lambda>minalloc.
        bindE (unpack_H buf 12) (\<lambda>maxalloc.
        bindE (unpack_H buf 14) (\<lambda>ss.
        bindE (unpack_H buf 16) (\<lambda>sp.
        bindE (unpack_H buf 18) (\<lambda>csum.
        bindE (unpack_H buf 20) (\<lambda>ip.
        bindE (unpack_H buf 22) (\<lambda>cs.
        bindE (unpack_H buf 24) (\<lambda>lfarlc.
          Inr \<lparr>data = buf, e_cblp = cblp, e_cp = cp, e_crlc = crlc, e_cparhdr = cparhdr,
               e_minalloc = minalloc, e_maxalloc = maxalloc, e_ss = ss, e_sp = sp,
               e_csum = csum, e_ip = ip, e_cs = cs, e_lfarlc = lfarlc,
               header_size = cparhdr * 16, code_start = cparhdr * 16,
               entry_point = cs * 16 + ip,
               functions' = [], call_sources = []\<rparr>)))))))))))))"


definition DOSExeAnalyzer_init :: "byte list \<Rightarrow> error + DOSExeAnalyzer" where
  "DOSExeAnalyzer_init buf = parse_mz_header buf"

subsection \<open>\<open>find_prologue_patterns\<close>\<close>

definition PROLOGUE_PATTERNS :: "byte list list" where
  "PROLOGUE_PATTERNS = [[0x55, 0x8B, 0xEC], [0x55, 0x89, 0xE5], [0x55, 0x8B, 0xE5], [0xC8], [0x55]]"

text \<open>\<open>buf.find(pat, pos)\<close> of Python's \<open>bytes\<close>: the lowest index at or after \<open>pos\<close> where
  \<open>pat\<close> occurs in \<open>buf\<close>; \<open>None\<close> stands for the result \<open>-1\<close>.\<close>

function bytes_find :: "byte list \<Rightarrow> byte list \<Rightarrow> nat \<Rightarrow> nat option" where
  "bytes_find buf pat pos =
     (if length buf < pos + length pat then None
      else if take (length pat) (drop pos buf) = pat then Some pos
      else bytes_find buf pat (Suc pos))"
  by pat_completeness auto
termination
  by (relation "measure (\<lambda>(buf, pat, pos). Suc (length buf) - pos)") auto

declare bytes_find.simps [simp del]

lemma bytes_find_bounds:
  "bytes_find buf pat pos = Some idx \<Longrightarrow> pos \<le> idx \<and> idx + length pat \<le> length buf"
proof (induction buf pat pos rule: bytes_find.induct)
  case (1 buf pat pos)
  show ?case
  proof (cases "length buf < pos + length pat")
    case True
    with "1.prems" show ?thesis by (simp add: bytes_find.simps [of buf pat pos])
  next
    case False
    show ?thesis
    proof (cases "take (length pat) (drop pos buf) = pat")
      case True
      with False "1.prems" show ?thesis by (simp add: bytes_find.simps [of buf pat pos])
    next
      case ne: False
      with False "1.prems" have "bytes_find buf pat (Suc pos) = Some idx"
        by (simp add: bytes_find.simps [of buf pat pos])
      with "1.IH" [OF False ne] show ?thesis by simp
    qed
  qed
qed

text \<open>A Python set is kept as a list without repetitions; \<open>s.add(x)\<close> is \<open>List.insert x s\<close>.
  The order in which Python iterates a set is unspecified; nothing below depends on it,
  since the records are exported in ascending order of their addresses.\<close>

definition PUSH_BP_FOLLOWERS :: "byte list" where
  "PUSH_BP_FOLLOWERS = [0x8B, 0x89, 0x83, 0x56, 0x57, 0x1E, 0x06]"

text \<open>The \<open>while True\<close> loop of one pattern, from search position \<open>pos\<close>.\<close>

function scan_pattern :: "nat \<Rightarrow> byte list \<Rightarrow> byte list \<Rightarrow> nat \<Rightarrow> nat list \<Rightarrow> nat list" where
  "scan_pattern cstart code pattern pos prologues =
     (case bytes_find code pattern pos of
        None \<Rightarrow> prologues
      | Some idx \<Rightarrow>
          (if pattern = [0x55] \<and> idx + 1 < length code
              \<and> code ! (idx + 1) \<notin> set PUSH_BP_FOLLOWERS
           then scan_pattern cstart code pattern (idx + 1) prologues
           else scan_pattern cstart code pattern (idx + 1) (List.insert (cstart + idx) prologues)))"
  by pat_completeness auto
termination
  by (relation "measure (\<lambda>(cstart, code, pattern, pos, prologues). Suc (length code) - pos)")
     (auto dest!: bytes_find_bounds)

declare scan_pattern.simps [simp del]

definition find_prologue_patterns :: "DOSExeAnalyzer \<Rightarrow> nat list" where
  "find_prologue_patterns s =
     (let code = drop (code_start s) (data s)
      in fold (\<lambda>pattern prologues. scan_pattern (code_start s) code pattern 0 prologues)
              PROLOGUE_PATTERNS [])"

subsection \<open>\<open>find_call_targets\<close>\<close>

definition CALL_NEAR_REL16 :: byte where "CALL_NEAR_REL16 = 0xE8"
definition CALL_FAR_PTR :: byte where "CALL_FAR_PTR = 0x9A"
definition CALL_RM16 :: byte where "CALL_RM16 = 0xFF"

text \<open>The body of an accepted call: add the target to the set and append the call site to
  the target's list in \<open>call_sources\<close>, creating the list when the key is new.\<close>

definition record_call ::
  "nat \<Rightarrow> nat \<Rightarrow> nat list \<times> (nat, nat list) dict \<Rightarrow> nat list \<times> (nat, nat list) dict" where
  "record_call target source st =
     (let targets = List.insert target (fst st);
          srcs = (if target \<notin> set (keys_of (snd st)) then AList.update target [] (snd st)
                  else snd st)
      in (targets, AList.update target (the (map_of srcs target) @ [source]) srcs))"

function call_scan ::
  "nat \<Rightarrow> nat \<Rightarrow> byte list \<Rightarrow> nat \<Rightarrow> nat list \<times> (nat, nat list) dict
     \<Rightarrow> nat list \<times> (nat, nat list) dict" where
  "call_scan cstart dlen code i st =
     (if int i < int (length code) - 3 then
        (let opcode = code ! i in
         if opcode = CALL_NEAR_REL16 then
           call_scan cstart dlen code (i + 3)
             (if i + 3 \<le> length code then
                (let rel16 = read_h code (i + 1);
                     target = int cstart + int i + 3 + rel16
                 in if 0 \<le> target \<and> target < int dlen
                    then record_call (nat target) (cstart + i) st else st)
              else st)
         else if opcode = CALL_FAR_PTR then
           call_scan cstart dlen code (i + 5)
             (if i + 5 \<le> length code then
                (let offset = read_H code (i + 1);
                     segment = read_H code (i + 3);
                     target = segment * 16 + offset
                 in if target < dlen
                    then record_call target (cstart + i) st else st)
              else st)
         else if opcode = CALL_RM16 then call_scan cstart dlen code (i + 1) st
         else call_scan cstart dlen code (i + 1) st)
      else st)"
  by pat_completeness auto
termination
  by (relation "measure (\<lambda>(cstart, dlen, code, i, st). length code - i)") auto

declare call_scan.simps [simp del]

text \<open>Returns the target set and the updated \<open>call_sources\<close> attribute.\<close>

definition find_call_targets :: "DOSExeAnalyzer \<Rightarrow> nat list \<times> (nat, nat list) dict" where
  "find_call_targets s =
     call_scan (code_start s) (length (data s)) (drop (code_start s) (data s)) 0
       ([], call_sources s)"


subsection \<open>\<open>find_interrupt_handlers\<close> and \<open>classify_subsystem\<close>\<close>

definition find_containing_function :: "(nat, FunctionInfo) dict \<Rightarrow> nat \<Rightarrow> nat option" where
  "find_containing_function fs addr =
     (let candidates = filter (\<lambda>f. f \<le> addr) (keys_of fs)
      in if candidates = [] then None else Some (fold max (tl candidates) (hd candidates)))"

text \<open>One INT occurrence attributed to \<open>func_addr\<close>.\<close>

definition note_interrupt :: "nat \<Rightarrow> string \<Rightarrow> (nat, string list) dict \<Rightarrow> (nat, string list) dict" where
  "note_interrupt func_addr int_str iu =
     (let iu1 = (if func_addr \<notin> set (keys_of iu) then AList.update func_addr [] iu else iu);
          cur = the (map_of iu1 func_addr)
      in if int_str \<notin> set cur then AList.update func_addr (cur @ [int_str]) iu1 else iu1)"

function int_scan ::
  "nat \<Rightarrow> byte list \<Rightarrow> (nat, FunctionInfo) dict \<Rightarrow> nat \<Rightarrow> (nat, string list) dict
     \<Rightarrow> (nat, string list) dict" where
  "int_scan cstart code fs i iu =
     (if int i < int (length code) - 1 then
        (if code ! i = 0xCD then
           (let int_num = code ! (i + 1);
                offset = cstart + i;
                int_str = ''0x'' @ format_0X 2 (unat int_num)
            in int_scan cstart code fs (i + 2)
                 (case find_containing_function fs offset of
                    None \<Rightarrow> iu
                  | Some func_addr \<Rightarrow> note_interrupt func_addr int_str iu))
         else int_scan cstart code fs (i + 1) iu)
      else iu)"
  by pat_completeness auto
termination
  by (relation "measure (\<lambda>(cstart, code, fs, i, iu). length code - i)") auto

declare int_scan.simps [simp del]

definition find_interrupt_handlers :: "DOSExeAnalyzer \<Rightarrow> (nat, string list) dict" where
  "find_interrupt_handlers s =
     int_scan (code_start s) (drop (code_start s) (data s)) (functions' s) 0 []"

definition classify_subsystem :: "nat \<Rightarrow> string list \<Rightarrow> string" where
  "classify_subsystem addr iu =
     (if ''0x10'' \<in> set iu then ''video''
      else if ''0x21'' \<in> set iu then ''dos''
      else if ''0x16'' \<in> set iu then ''input''
      else if ''0x08'' \<in> set iu \<or> ''0x1C'' \<in> set iu then ''timer''
      else if ''0x33'' \<in> set iu then ''mouse''
      else if ''0x80'' \<in> set iu \<or> ''0x81'' \<in> set iu then ''sound''
      else ''unknown'')"

subsection \<open>\<open>estimate_function_sizes\<close>\<close>

definition RET_NEAR :: byte where "RET_NEAR = 0xC3"
definition RET_NEAR_IMM :: byte where "RET_NEAR_IMM = 0xC2"
definition RET_FAR :: byte where "RET_FAR = 0xCB"
definition RET_FAR_IMM :: byte where "RET_FAR_IMM = 0xCA"

text \<open>The \<open>for j, b in enumerate(code)\<close> loop with its \<open>break\<close>; \<open>j\<close> is the running index
  and the result is \<open>ret_offset\<close>.\<close>

fun find_ret :: "byte list \<Rightarrow> nat \<Rightarrow> nat option" where
  "find_ret [] j = None"
| "find_ret (b # bs) j =
     (if b \<in> set [RET_NEAR, RET_NEAR_IMM, RET_FAR, RET_FAR_IMM] then Some (j + 1)
      else find_ret bs (j + 1))"

text \<open>One iteration of the loop over \<open>enumerate(sorted_addrs)\<close>, in two parts: the
  size it computes, and the assignment to the record. The test \<open>if ret_offset:\<close> is false
  for \<open>None\<close> and for \<open>0\<close>.\<close>

definition estimate_size :: "byte list \<Rightarrow> nat list \<Rightarrow> nat \<Rightarrow> int" where
  "estimate_size dat sorted_addrs i =
     (let addr = sorted_addrs ! i;
          next_func = (if i + 1 < length sorted_addrs then sorted_addrs ! (i + 1)
                       else length dat);
          code = py_slice dat addr next_func;
          ret_offset = find_ret code 0
      in case ret_offset of
           None \<Rightarrow> min (int next_func - int addr) 0xFFFF
         | Some r \<Rightarrow> if r \<noteq> 0 then int r else min (int next_func - int addr) 0xFFFF)"

definition estimate_one ::
  "byte list \<Rightarrow> nat list \<Rightarrow> nat \<Rightarrow> (nat, FunctionInfo) dict \<Rightarrow> (nat, FunctionInfo) dict" where
  "estimate_one dat sorted_addrs i fs =
     (let addr = sorted_addrs ! i
      in AList.update addr
           ((the (map_of fs addr))\<lparr>size_bytes := estimate_size dat sorted_addrs i\<rparr>) fs)"

definition estimate_function_sizes :: "DOSExeAnalyzer \<Rightarrow> DOSExeAnalyzer" where
  "estimate_function_sizes s =
     (let sorted_addrs = sort (keys_of (functions' s))
      in s\<lparr>functions' :=
            fold (estimate_one (data s) sorted_addrs) [0..<length sorted_addrs] (functions' s)\<rparr>)"

subsection \<open>\<open>analyze\<close>\<close>

text \<open>Step 1: the entry point record.\<close>

definition add_entry :: "DOSExeAnalyzer \<Rightarrow> DOSExeAnalyzer" where
  "add_entry s =
     s\<lparr>functions' :=
         AList.update (entry_point s)
           (FunctionInfo_new ''entry'' (hex_addr (entry_point s)) [] ''Program entry point'')
           (functions' s)\<rparr>"

text \<open>The body of the two merging loops of step 4, which differ in the note only.\<close>

definition add_candidate ::
  "nat \<Rightarrow> (nat, nat list) dict \<Rightarrow> string \<Rightarrow> nat \<Rightarrow> (nat, FunctionInfo) dict
     \<Rightarrow> (nat, FunctionInfo) dict" where
  "add_candidate cstart srcs nt addr fs =
     (if addr \<notin> set (keys_of fs) \<and> addr \<ge> cstart then
        (let callers = map hex_addr (case map_of srcs addr of None \<Rightarrow> [] | Some cs \<Rightarrow> cs)
         in AList.update addr
              (FunctionInfo_new (''FUN_'' @ format_0X 5 addr) (hex_addr addr) callers nt) fs)
      else fs)"

text \<open>Steps 2 to 4: both scans, then the high-confidence addresses, then the remaining
  call targets.\<close>

definition merge_candidates :: "DOSExeAnalyzer \<Rightarrow> DOSExeAnalyzer" where
  "merge_candidates s =
     (let prologues = find_prologue_patterns s;
          found = find_call_targets s;
          call_targets = fst found;
          srcs = snd found;
          high_confidence = filter (\<lambda>a. a \<in> set call_targets) prologues;
          fs1 = fold (add_candidate (code_start s) srcs ''auto-discovered (prologue+call)'')
                  high_confidence (functions' s);
          fs2 = fold (add_candidate (code_start s) srcs ''auto-discovered (call target)'')
                  (filter (\<lambda>a. a \<notin> set high_confidence) call_targets) fs1
      in s\<lparr>call_sources := srcs, functions' := fs2\<rparr>)"

text \<open>Step 5: interrupt usage and the subsystem derived from it.\<close>

definition set_int_usage ::
  "nat \<times> string list \<Rightarrow> (nat, FunctionInfo) dict \<Rightarrow> (nat, FunctionInfo) dict" where
  "set_int_usage item fs =
     (let addr = fst item; ints = snd item
      in if addr \<in> set (keys_of fs)
         then AList.update addr
                ((the (map_of fs addr))\<lparr>int_usage := ints,
                                         subsystem := classify_subsystem addr ints\<rparr>) fs
         else fs)"

definition attribute_interrupts :: "DOSExeAnalyzer \<Rightarrow> DOSExeAnalyzer" where
  "attribute_interrupts s =
     s\<lparr>functions' := fold set_int_usage (find_interrupt_handlers s) (functions' s)\<rparr>"

definition analyze :: "DOSExeAnalyzer \<Rightarrow> DOSExeAnalyzer" where
  "analyze s = estimate_function_sizes (attribute_interrupts (merge_candidates (add_entry s)))"

subsection \<open>\<open>export_json\<close> and \<open>main\<close>\<close>

text \<open>The \<open>functions\<close> array of the exported document: one element per record, in ascending
  order of the keys, with the caller list cut to ten. The other fields of the document
  (program name, language, hash, time stamp) do not depend on the analysis.\<close>

definition export_json :: "DOSExeAnalyzer \<Rightarrow> FunctionInfo list" where
  "export_json s =
     map (\<lambda>addr. let f = the (map_of (functions' s) addr) in f\<lparr>callers := take 10 (callers f)\<rparr>)
       (sort (keys_of (functions' s)))"

text \<open>\<open>main\<close> on the bytes of the executable: an exception of the constructor ends the run
  before anything is written, otherwise the catalog is exported.\<close>

definition main_catalog :: "byte list \<Rightarrow> error + FunctionInfo list" where
  "main_catalog buf = bindE (DOSExeAnalyzer_init buf) (\<lambda>s. Inr (export_json (analyze s)))"


section \<open>Notions used to state the properties\<close>

text \<open>The call sites in the order in which the sweep of \<open>find_call_targets\<close> discovers them:
  the pairs (offset of the call opcode, target) of the calls it accepts, from index \<open>i\<close> of
  the code region on.\<close>

function call_sites :: "nat \<Rightarrow> nat \<Rightarrow> byte list \<Rightarrow> nat \<Rightarrow> (nat \<times> nat) list" where
  "call_sites cstart dlen code i =
     (if i + 3 < length code then
        (if code ! i = CALL_NEAR_REL16 then
           (let target = int cstart + int i + 3 + read_h code (i + 1)
            in (if 0 \<le> target \<and> target < int dlen then [(cstart + i, nat target)] else [])
               @ call_sites cstart dlen code (i + 3))
         else if code ! i = CALL_FAR_PTR then
           (let target = read_H code (i + 3) * 16 + read_H code (i + 1)
            in (if i + 5 \<le> length code \<and> target < dlen then [(cstart + i, target)] else [])
               @ call_sites cstart dlen code (i + 5))
         else call_sites cstart dlen code (i + 1))
      else [])"
  by pat_completeness auto
termination
  by (relation "measure (\<lambda>(cstart, dlen, code, i). length code - i)") auto

declare call_sites.simps [simp del]

text \<open>The return family: near and far return, with or without an immediate operand.\<close>

definition is_ret :: "byte \<Rightarrow> bool" where
  "is_ret b \<longleftrightarrow> b = RET_NEAR \<or> b = RET_NEAR_IMM \<or> b = RET_FAR \<or> b = RET_FAR_IMM"

definition discovered_sites :: "DOSExeAnalyzer \<Rightarrow> (nat \<times> nat) list" where
  "discovered_sites s =
     call_sites (code_start s) (length (data s)) (drop (code_start s) (data s)) 0"

text \<open>The call sites of one target, in discovery order.\<close>

definition sites_of :: "(nat \<times> nat) list \<Rightarrow> nat \<Rightarrow> nat list" where
  "sites_of edges t = map fst (filter (\<lambda>e. snd e = t) edges)"

text \<open>The record that merging leaves at address \<open>k\<close>: the entry record at the entry point,
  an auto-discovered record elsewhere.\<close>

definition merged_record :: "DOSExeAnalyzer \<Rightarrow> nat \<Rightarrow> FunctionInfo" where
  "merged_record s k =
     (if k = entry_point s
      then FunctionInfo_new ''entry'' (hex_addr k) [] ''Program entry point''
      else FunctionInfo_new (''FUN_'' @ format_0X 5 k) (hex_addr k)
             (map hex_addr (sites_of (discovered_sites s) k))
             (if k \<in> set (find_prologue_patterns s) then ''auto-discovered (prologue+call)''
              else ''auto-discovered (call target)''))"

text \<open>The tag under which \<open>find_interrupt_handlers\<close> records the vector \<open>v\<close>
  (\<open>f"0x{int_num:02X}"\<close>).\<close>

definition int_tag :: "byte \<Rightarrow> string" where
  "int_tag v = ''0x'' @ format_0X 2 (unat v)"

text \<open>The priority table of the specification, with the vectors as numbers: the first row
  one of whose vectors is in use gives the subsystem.\<close>

definition SUBSYSTEM_TABLE :: "(byte list \<times> string) list" where
  "SUBSYSTEM_TABLE =
     [([0x10], ''video''), ([0x21], ''dos''), ([0x16], ''input''), ([0x08, 0x1C], ''timer''),
      ([0x33], ''mouse''), ([0x80, 0x81], ''sound'')]"

fun table_lookup :: "(byte list \<times> string) list \<Rightarrow> byte set \<Rightarrow> string" where
  "table_lookup [] used = ''unknown''"
| "table_lookup (row # rest) used =
     (if \<exists>v\<in>set (fst row). v \<in> used then snd row else table_lookup rest used)"

text \<open>An occurrence of a pattern at index \<open>idx\<close> of the code region, and the occurrences
  that the filter on the bare pattern rejects.\<close>

definition occurs_at :: "byte list \<Rightarrow> byte list \<Rightarrow> nat \<Rightarrow> bool" where
  "occurs_at code pat idx \<longleftrightarrow>
     idx + length pat \<le> length code \<and> take (length pat) (drop idx code) = pat"

definition rejected_at :: "byte list \<Rightarrow> byte list \<Rightarrow> nat \<Rightarrow> bool" where
  "rejected_at code pat idx \<longleftrightarrow>
     pat = [0x55] \<and> idx + 1 < length code \<and> code ! (idx + 1) \<notin> set PUSH_BP_FOLLOWERS"

section \<open>Example images\<close>

text \<open>A 100-byte executable with a two-paragraph header and entry point 0000:0020. The code
  region holds the entry function (a prologue, INT 21h, INT 10h, a near return at offset
  40), eleven near calls and one far call to offset 90, one near call to the entry point
  at offset 74, a prologue at offset 82 that nothing calls, and a function at offset 90
  (a prologue, INT 16h, a near return).\<close>

definition demo_image :: "byte list" where
  "demo_image =
     [0x4D, 0x5A, 0, 0, 0, 0, 0, 0, 0x02, 0, 0, 0, 0, 0, 0, 0,
      0, 0, 0, 0, 0x20, 0, 0, 0, 0, 0, 0, 0, 0, 0, 0, 0,
      0x55, 0x8B, 0xEC, 0xCD, 0x21, 0xCD, 0x10, 0x90, 0xC3,
      0xE8, 0x2E, 0, 0xE8, 0x2B, 0, 0xE8, 0x28, 0, 0xE8, 0x25, 0,
      0xE8, 0x22, 0, 0xE8, 0x1F, 0, 0xE8, 0x1C, 0, 0xE8, 0x19, 0,
      0xE8, 0x16, 0, 0xE8, 0x13, 0, 0xE8, 0x10, 0,
      0xE8, 0xD3, 0xFF,
      0x9A, 0x5A, 0, 0, 0,
      0x55, 0x8B, 0xEC, 0xC3,
      0x90, 0x90, 0x90, 0x90,
      0x55, 0x8B, 0xEC, 0xCD, 0x16, 0xC3,
      0x90, 0x90, 0x90, 0x90]"

definition demo_code :: "byte list" where
  "demo_code = drop 32 demo_image"

definition demo_state :: DOSExeAnalyzer where
  "demo_state =
     \<lparr>data = demo_image, e_cblp = 0, e_cp = 0, e_crlc = 0, e_cparhdr = 2, e_minalloc = 0,
      e_maxalloc = 0, e_ss = 0, e_sp = 0, e_csum = 0, e_ip = 32, e_cs = 0, e_lfarlc = 0,
      header_size = 32, code_start = 32, entry_point = 32, functions' = [],
      call_sources = []\<rparr>"

definition demo_catalog :: "FunctionInfo list" where
  "demo_catalog =
     [\<lparr>name = ''entry'', entry_linear = ''0x20'', size_bytes = 9,
         stack_frame_size = 0, subsystem = ''video'', callers = [],
         int_usage = [''0x21'', ''0x10''], source_recording_id = [],
         notes' = ''Program entry point''\<rparr>,
      \<lparr>name = ''FUN_0005A'', entry_linear = ''0x5A'', size_bytes = 6,
         stack_frame_size = 0, subsystem = ''input'',
         callers =
           [''0x29'', ''0x2C'', ''0x2F'', ''0x32'', ''0x35'', ''0x38'',
            ''0x3B'', ''0x3E'', ''0x41'', ''0x44''],
         int_usage = [''0x16''], source_recording_id = [],
         notes' = ''auto-discovered (prologue+call)''\<rparr>]"

text \<open>The analyser object that \<open>__init__\<close> builds for an image whose header fields other than
  the header size, the initial IP and the initial CS are zero.\<close>

definition image_state :: "byte list \<Rightarrow> nat \<Rightarrow> nat \<Rightarrow> nat \<Rightarrow> DOSExeAnalyzer" where
  "image_state buf cparhdr ip cs =
     \<lparr>data = buf, e_cblp = 0, e_cp = 0, e_crlc = 0, e_cparhdr = cparhdr, e_minalloc = 0,
      e_maxalloc = 0, e_ss = 0, e_sp = 0, e_csum = 0, e_ip = ip, e_cs = cs, e_lfarlc = 0,
      header_size = cparhdr * 16, code_start = cparhdr * 16, entry_point = cs * 16 + ip,
      functions' = [], call_sources = []\<rparr>"

text \<open>A 40-byte image: a two-paragraph header, entry point 0000:0020, and a code region that
  starts with a prologue and holds no call, interrupt or return opcode.\<close>

definition plain_image :: "byte list" where
  "plain_image =
     [0x4D, 0x5A, 0, 0, 0, 0, 0, 0, 0x02, 0, 0, 0, 0, 0, 0, 0,
      0, 0, 0, 0, 0x20, 0, 0, 0, 0, 0, 0, 0, 0, 0, 0, 0,
      0x55, 0x8B, 0xEC, 0x90, 0x90, 0x90, 0x90, 0x90]"


text \<open>A 26-byte image whose header declares 0xFFFF paragraphs and the entry point
  FFFF:FFFF.\<close>

definition oversized_header_image :: "byte list" where
  "oversized_header_image =
     [0x4D, 0x5A, 0, 0, 0, 0, 0, 0, 0xFF, 0xFF, 0, 0, 0, 0, 0, 0,
      0, 0, 0, 0, 0xFF, 0xFF, 0xFF, 0xFF, 0, 0]"

text \<open>A 33-byte image whose code region is the single byte 0x55.\<close>

definition trailing_push_image :: "byte list" where
  "trailing_push_image =
     [0x4D, 0x5A, 0, 0, 0, 0, 0, 0, 0x02, 0, 0, 0, 0, 0, 0, 0,
      0, 0, 0, 0, 0x20, 0, 0, 0, 0, 0, 0, 0, 0, 0, 0, 0,
      0x55]"

definition plain_catalog :: "FunctionInfo list" where
  "plain_catalog =
     [\<lparr>name = ''entry'', entry_linear = ''0x20'', size_bytes = 8, stack_frame_size = 0,
       subsystem = ''unknown'', callers = [], int_usage = [], source_recording_id = [],
       notes' = ''Program entry point''\<rparr>]"

text \<open>A 65569-byte image: a two-paragraph header, entry point 0000:0020, 65536 NOP bytes
  and a near return.\<close>

definition long_image :: "byte list" where
  "long_image =
     [0x4D, 0x5A, 0, 0, 0, 0, 0, 0, 0x02, 0, 0, 0, 0, 0, 0, 0,
      0, 0, 0, 0, 0x20, 0, 0, 0, 0, 0, 0, 0, 0, 0, 0, 0]
     @ replicate 65536 0x90 @ [0xC3]"

text \<open>A 72-byte image: a two-paragraph header, entry point 0000:0020, twelve near calls at
  offsets 32, 35, ..., 65 that all resolve to offset 32, and four NOP bytes.\<close>

definition called_entry_image :: "byte list" where
  "called_entry_image =
     [0x4D, 0x5A, 0, 0, 0, 0, 0, 0, 0x02, 0, 0, 0, 0, 0, 0, 0,
      0, 0, 0, 0, 0x20, 0, 0, 0, 0, 0, 0, 0, 0, 0, 0, 0,
      0xE8, 0xFD, 0xFF, 0xE8, 0xFA, 0xFF, 0xE8, 0xF7, 0xFF, 0xE8, 0xF4, 0xFF,
      0xE8, 0xF1, 0xFF, 0xE8, 0xEE, 0xFF, 0xE8, 0xEB, 0xFF, 0xE8, 0xE8, 0xFF,
      0xE8, 0xE5, 0xFF, 0xE8, 0xE2, 0xFF, 0xE8, 0xDF, 0xFF, 0xE8, 0xDC, 0xFF,
      0x90, 0x90, 0x90, 0x90]"

section \<open>Lemmas\<close>

subsection \<open>Header parsing\<close>

lemma bindE_simps [simp]: "bindE (Inl e) f = Inl e" "bindE (Inr x) f = f x"
  by (simp_all add: bindE_def)

lemma unpack_H_ok: "off + 2 \<le> length buf \<Longrightarrow> unpack_H buf off = Inr (read_H buf off)"
  by (simp add: unpack_H_def read_H_def)

lemma unpack_H_err: "length buf < off + 2 \<Longrightarrow> unpack_H buf off = Inl StructError"
  by (simp add: unpack_H_def)

lemma parse_mz_header_magic:
  "take 2 buf \<noteq> [0x4D, 0x5A] \<Longrightarrow> parse_mz_header buf = Inl ValueError"
  by (simp add: parse_mz_header_def)

lemma parse_mz_header_ok:
  assumes "take 2 buf = [0x4D, 0x5A]" and "26 \<le> length buf"
  shows "parse_mz_header buf =
     Inr \<lparr>data = buf, e_cblp = read_H buf 2, e_cp = read_H buf 4, e_crlc = read_H buf 6,
          e_cparhdr = read_H buf 8, e_minalloc = read_H buf 10, e_maxalloc = read_H buf 12,
          e_ss = read_H buf 14, e_sp = read_H buf 16, e_csum = read_H buf 18,
          e_ip = read_H buf 20, e_cs = read_H buf 22, e_lfarlc = read_H buf 24,
          header_size = read_H buf 8 * 16, code_start = read_H buf 8 * 16,
          entry_point = read_H buf 22 * 16 + read_H buf 20,
          functions' = [], call_sources = []\<rparr>"
  using assms by (simp add: parse_mz_header_def unpack_H_ok)

lemma bindE_StructError:
  "(\<And>v. f v = Inl StructError) \<Longrightarrow> bindE (unpack_H buf off) f = Inl StructError"
  by (simp add: unpack_H_def)

lemma parse_mz_header_short:
  assumes "take 2 buf = [0x4D, 0x5A]" and "length buf < 26"
  shows "parse_mz_header buf = Inl StructError"
proof -
  have last: "\<And>f. bindE (unpack_H buf 24) f = Inl StructError"
    using assms(2) by (simp add: unpack_H_err)
  show ?thesis
    by (simp add: parse_mz_header_def assms(1)) (intro bindE_StructError last)
qed

lemma parse_mz_header_Inr:
  assumes "parse_mz_header buf = Inr s"
  shows "take 2 buf = [0x4D, 0x5A]" and "26 \<le> length buf" and "data s = buf"
    and "code_start s = read_H buf 8 * 16"
    and "entry_point s = read_H buf 22 * 16 + read_H buf 20"
    and "functions' s = []" and "call_sources s = []"
proof -
  show m: "take 2 buf = [0x4D, 0x5A]"
    using assms parse_mz_header_magic by fastforce
  show l: "26 \<le> length buf"
    using assms m parse_mz_header_short [of buf] by fastforce
  from parse_mz_header_ok [OF m l] assms
  show "data s = buf" "code_start s = read_H buf 8 * 16"
    "entry_point s = read_H buf 22 * 16 + read_H buf 20"
    "functions' s = []" "call_sources s = []"
    by auto
qed

subsection \<open>Hexadecimal formatting can be read back\<close>

lemma hex_val_hex_digit: "d < 16 \<Longrightarrow> hex_val (hex_digit d) = d"
proof -
  assume "d < 16"
  then have "d = 0 \<or> d = 1 \<or> d = 2 \<or> d = 3 \<or> d = 4 \<or> d = 5 \<or> d = 6 \<or> d = 7 \<or> d = 8
      \<or> d = 9 \<or> d = 10 \<or> d = 11 \<or> d = 12 \<or> d = 13 \<or> d = 14 \<or> d = 15"
    by arith
  then show ?thesis
    by (elim disjE) (simp_all add: hex_val_def hex_digit_def)
qed

lemma parse_X_snoc: "parse_X (s @ [c]) = 16 * parse_X s + hex_val c"
  by (simp add: parse_X_def)

lemma parse_X_format_X: "parse_X (format_X n) = n"
proof (induction n rule: format_X.induct)
  case (1 n)
  show ?case
  proof (cases "n < 16")
    case True
    then show ?thesis
      by (simp add: format_X.simps [of n] parse_X_def hex_val_hex_digit)
  next
    case False
    with 1 show ?thesis
      by (simp add: format_X.simps [of n] parse_X_snoc hex_val_hex_digit)
  qed
qed

lemma hex_val_zero: "hex_val (CHR ''0'') = 0"
  by (simp add: hex_val_def)

lemma parse_X_zeros: "parse_X (replicate k (CHR ''0'') @ s) = parse_X s"
proof -
  have "foldl (\<lambda>acc c. 16 * acc + hex_val c) 0 (replicate k (CHR ''0'')) = 0"
    by (induction k) (simp_all add: hex_val_zero)
  then show ?thesis by (simp add: parse_X_def)
qed

lemma parse_X_format_0X: "parse_X (format_0X w n) = n"
  by (simp add: format_0X_def parse_X_zeros parse_X_format_X)

lemma parse_addr_hex_addr [simp]: "parse_addr (hex_addr n) = n"
  by (simp add: parse_addr_def hex_addr_def parse_X_format_X)

lemma hex_addr_inj [simp]: "hex_addr a = hex_addr b \<longleftrightarrow> a = b"
  by (metis parse_addr_hex_addr)

subsection \<open>Dictionaries\<close>

lemma keys_of_update:
  "keys_of (AList.update k v d) = (if k \<in> set (keys_of d) then keys_of d else keys_of d @ [k])"
  by (induction d) (auto simp: keys_of_def)

lemma set_keys_of_update [simp]: "set (keys_of (AList.update k v d)) = insert k (set (keys_of d))"
  by (auto simp: keys_of_update)

lemma distinct_keys_of_update [simp]:
  "distinct (keys_of (AList.update k v d)) = distinct (keys_of d)"
  by (auto simp: keys_of_update)

lemma map_of_update [simp]: "map_of (AList.update k v d) = (map_of d)(k \<mapsto> v)"
  by (rule update_conv')

lemma keys_of_map_of: "k \<in> set (keys_of d) \<longleftrightarrow> map_of d k \<noteq> None"
  by (simp add: keys_of_def map_of_eq_None_iff)

subsection \<open>The call sweep\<close>

lemma call_scan_sites:
  "call_scan cstart dlen code i st =
     fold (\<lambda>e. record_call (snd e) (fst e)) (call_sites cstart dlen code i) st"
proof (induction cstart dlen code i st rule: call_scan.induct)
  case (1 cstart dlen code i st)
  show ?case
  proof (cases "i + 3 < length code")
    case False
    then show ?thesis
      by (simp add: call_scan.simps [of cstart dlen code i] call_sites.simps [of cstart dlen code i])
  next
    case True
    then have c: "int i < int (length code) - 3" by simp
    consider (near) "code ! i = CALL_NEAR_REL16"
      | (far) "code ! i \<noteq> CALL_NEAR_REL16" "code ! i = CALL_FAR_PTR"
      | (rm) "code ! i \<noteq> CALL_NEAR_REL16" "code ! i \<noteq> CALL_FAR_PTR" "code ! i = CALL_RM16"
      | (other) "code ! i \<noteq> CALL_NEAR_REL16" "code ! i \<noteq> CALL_FAR_PTR" "code ! i \<noteq> CALL_RM16"
      by blast
    then show ?thesis
    proof cases
      case near
      show ?thesis
        using True near "1.IH"(1) [OF c refl near]
        by (simp add: call_scan.simps [of cstart dlen code i]
            call_sites.simps [of cstart dlen code i] Let_def)
    next
      case far
      show ?thesis
        using True far "1.IH"(2) [OF c refl far]
        by (simp add: call_scan.simps [of cstart dlen code i]
            call_sites.simps [of cstart dlen code i] Let_def)
    next
      case rm
      show ?thesis
        using True rm "1.IH"(3) [OF c refl rm]
        by (simp add: call_scan.simps [of cstart dlen code i]
            call_sites.simps [of cstart dlen code i])
    next
      case other
      show ?thesis
        using True other "1.IH"(4) [OF c refl other]
        by (simp add: call_scan.simps [of cstart dlen code i]
            call_sites.simps [of cstart dlen code i])
    qed
  qed
qed

lemma call_sites_props:
  "(src, tgt) \<in> set (call_sites cstart dlen code i) \<Longrightarrow>
     cstart + i \<le> src \<and> src - cstart + 3 < length code \<and> tgt < dlen
     \<and> (code ! (src - cstart) = CALL_NEAR_REL16 \<or> code ! (src - cstart) = CALL_FAR_PTR)"
proof (induction cstart dlen code i rule: call_sites.induct)
  case (1 cstart dlen code i)
  show ?case
  proof (cases "i + 3 < length code")
    case False
    with "1.prems" show ?thesis
      by (simp add: call_sites.simps [of cstart dlen code i])
  next
    case True
    consider (near) "code ! i = CALL_NEAR_REL16"
      | (far) "code ! i \<noteq> CALL_NEAR_REL16" "code ! i = CALL_FAR_PTR"
      | (other) "code ! i \<noteq> CALL_NEAR_REL16" "code ! i \<noteq> CALL_FAR_PTR"
      by blast
    then show ?thesis
    proof cases
      case near
      from "1.prems" True near
      have "(src = cstart + i \<and> int tgt < int dlen) \<or> (src, tgt) \<in> set (call_sites cstart dlen code (i + 3))"
        by (auto simp: call_sites.simps [of cstart dlen code i] Let_def split: if_splits)
      then show ?thesis
        using "1.IH"(1) [OF True near refl] True near by auto
    next
      case far
      from "1.prems" True far
      have "(src = cstart + i \<and> tgt < dlen) \<or> (src, tgt) \<in> set (call_sites cstart dlen code (i + 5))"
        by (auto simp: call_sites.simps [of cstart dlen code i] Let_def split: if_splits)
      then show ?thesis
        using "1.IH"(2) [OF True far refl] True far by auto
    next
      case other
      from "1.prems" True other
      have "(src, tgt) \<in> set (call_sites cstart dlen code (i + 1))"
        by (simp add: call_sites.simps [of cstart dlen code i])
      then show ?thesis
        using "1.IH"(3) [OF True other] by auto
    qed
  qed
qed

lemma fst_record_call [simp]: "fst (record_call t src st) = List.insert t (fst st)"
  by (simp add: record_call_def Let_def)

lemma map_of_record_call:
  "map_of (snd (record_call t src st)) =
     (map_of (snd st))(t \<mapsto> (case map_of (snd st) t of None \<Rightarrow> [] | Some l \<Rightarrow> l) @ [src])"
  by (auto simp: record_call_def Let_def keys_of_map_of split: option.splits)

lemma fold_record_call_targets:
  "set (fst (fold (\<lambda>e. record_call (snd e) (fst e)) edges st)) = set (fst st) \<union> snd ` set edges"
  by (induction edges arbitrary: st) auto

lemma sites_of_none: "t \<notin> snd ` set edges \<Longrightarrow> sites_of edges t = []"
  by (induction edges) (auto simp: sites_of_def)

lemma sites_of_Cons:
  "sites_of (e # edges) t = (if snd e = t then fst e # sites_of edges t else sites_of edges t)"
  by (simp add: sites_of_def)

lemma sites_of_Nil [simp]: "sites_of [] t = []"
  by (simp add: sites_of_def)

lemma fold_record_call_sources:
  "map_of (snd (fold (\<lambda>e. record_call (snd e) (fst e)) edges st)) t =
     (if t \<in> snd ` set edges
      then Some ((case map_of (snd st) t of None \<Rightarrow> [] | Some l \<Rightarrow> l) @ sites_of edges t)
      else map_of (snd st) t)"
proof (induction edges arbitrary: st)
  case Nil
  then show ?case by simp
next
  case (Cons e edges)
  show ?case
    by (simp add: Cons.IH map_of_record_call sites_of_Cons sites_of_none split: option.splits)
qed

lemma find_call_targets_set:
  "call_sources s = [] \<Longrightarrow> set (fst (find_call_targets s)) = snd ` set (discovered_sites s)"
  by (simp add: find_call_targets_def discovered_sites_def call_scan_sites fold_record_call_targets)

lemma find_call_targets_sources:
  "call_sources s = [] \<Longrightarrow>
     (case map_of (snd (find_call_targets s)) t of None \<Rightarrow> [] | Some cs \<Rightarrow> cs)
       = sites_of (discovered_sites s) t"
proof -
  show "call_sources s = [] \<Longrightarrow> ?thesis"
    by (simp add: find_call_targets_def discovered_sites_def call_scan_sites
        fold_record_call_sources sites_of_none)
qed

lemma discovered_sites_props:
  assumes "(src, tgt) \<in> set (discovered_sites s)"
  shows "code_start s \<le> src" and "src + 3 < length (data s)" and "tgt < length (data s)"
    and "data s ! src = CALL_NEAR_REL16 \<or> data s ! src = CALL_FAR_PTR"
proof -
  from call_sites_props [OF assms [unfolded discovered_sites_def]]
  have a: "code_start s \<le> src" and b: "src - code_start s + 3 < length (data s) - code_start s"
    and c: "tgt < length (data s)"
    and d: "drop (code_start s) (data s) ! (src - code_start s) = CALL_NEAR_REL16
            \<or> drop (code_start s) (data s) ! (src - code_start s) = CALL_FAR_PTR"
    by auto
  show "code_start s \<le> src" by (rule a)
  show l: "src + 3 < length (data s)" using a b by arith
  show "tgt < length (data s)" by (rule c)
  have "drop (code_start s) (data s) ! (src - code_start s) = data s ! src"
    using a l by simp
  with d show "data s ! src = CALL_NEAR_REL16 \<or> data s ! src = CALL_FAR_PTR" by simp
qed

subsection \<open>What each step of \<open>analyze\<close> leaves unchanged\<close>

lemma add_entry_frame [simp]:
  "data (add_entry s) = data s" "code_start (add_entry s) = code_start s"
  "entry_point (add_entry s) = entry_point s" "call_sources (add_entry s) = call_sources s"
  by (simp_all add: add_entry_def)

lemma merge_candidates_frame [simp]:
  "data (merge_candidates s) = data s" "code_start (merge_candidates s) = code_start s"
  "entry_point (merge_candidates s) = entry_point s"
  by (simp_all add: merge_candidates_def Let_def)

lemma attribute_interrupts_frame [simp]:
  "data (attribute_interrupts s) = data s" "code_start (attribute_interrupts s) = code_start s"
  "entry_point (attribute_interrupts s) = entry_point s"
  by (simp_all add: attribute_interrupts_def)

lemma estimate_function_sizes_frame [simp]:
  "data (estimate_function_sizes s) = data s"
  "code_start (estimate_function_sizes s) = code_start s"
  "entry_point (estimate_function_sizes s) = entry_point s"
  by (simp_all add: estimate_function_sizes_def Let_def)

lemma find_prologue_patterns_add_entry [simp]:
  "find_prologue_patterns (add_entry s) = find_prologue_patterns s"
  by (simp add: find_prologue_patterns_def)

lemma find_call_targets_add_entry [simp]:
  "find_call_targets (add_entry s) = find_call_targets s"
  by (simp add: find_call_targets_def)

subsection \<open>Merging\<close>

lemma fold_add_candidate_keys:
  "set (keys_of (fold (add_candidate cstart srcs nt) xs fs))
     = set (keys_of fs) \<union> {a \<in> set xs. cstart \<le> a}"
  by (induction xs arbitrary: fs) (auto simp: add_candidate_def Let_def)

lemma fold_add_candidate_distinct:
  "distinct (keys_of fs) \<Longrightarrow> distinct (keys_of (fold (add_candidate cstart srcs nt) xs fs))"
  by (induction xs arbitrary: fs) (auto simp: add_candidate_def Let_def)

lemma fold_add_candidate_map_of:
  "map_of (fold (add_candidate cstart srcs nt) xs fs) k =
     (if k \<in> set (keys_of fs) then map_of fs k
      else if k \<in> set xs \<and> cstart \<le> k
      then Some (FunctionInfo_new (''FUN_'' @ format_0X 5 k) (hex_addr k)
                  (map hex_addr (case map_of srcs k of None \<Rightarrow> [] | Some cs \<Rightarrow> cs)) nt)
      else None)"
proof (induction xs arbitrary: fs)
  case Nil
  then show ?case by (simp add: keys_of_map_of)
next
  case (Cons a xs)
  show ?case
    by (simp add: Cons.IH) (auto simp: add_candidate_def Let_def keys_of_map_of)
qed

lemma merge_candidates_keys:
  assumes "functions' s = []" and "call_sources s = []"
  shows "set (keys_of (functions' (merge_candidates (add_entry s))))
           = insert (entry_point s) {a \<in> snd ` set (discovered_sites s). code_start s \<le> a}"
    and "distinct (keys_of (functions' (merge_candidates (add_entry s))))"
proof -
  have k0: "keys_of (functions' (add_entry s)) = [entry_point s]"
    using assms(1) by (simp add: add_entry_def keys_of_def)
  show "set (keys_of (functions' (merge_candidates (add_entry s))))
           = insert (entry_point s) {a \<in> snd ` set (discovered_sites s). code_start s \<le> a}"
    using find_call_targets_set [OF assms(2)]
    by (auto simp: merge_candidates_def Let_def fold_add_candidate_keys k0)
  show "distinct (keys_of (functions' (merge_candidates (add_entry s))))"
    by (simp add: merge_candidates_def Let_def fold_add_candidate_distinct k0)
qed

lemma merge_candidates_map_of:
  assumes "functions' s = []" and "call_sources s = []"
  shows "map_of (functions' (merge_candidates (add_entry s))) k =
           (if k = entry_point s \<or> (k \<in> snd ` set (discovered_sites s) \<and> code_start s \<le> k)
            then Some (merged_record s k) else None)"
proof -
  have k0: "keys_of (functions' (add_entry s)) = [entry_point s]"
    using assms(1) by (simp add: add_entry_def keys_of_def)
  have m0: "map_of (functions' (add_entry s)) (entry_point s)
              = Some (FunctionInfo_new ''entry'' (hex_addr (entry_point s)) [] ''Program entry point'')"
    by (simp add: add_entry_def)
  note t = find_call_targets_set [OF assms(2)]
  note c = find_call_targets_sources [OF assms(2)]
  show ?thesis
    using t
    by (auto simp: merge_candidates_def Let_def fold_add_candidate_map_of
        fold_add_candidate_keys k0 m0 merged_record_def c)
qed

subsection \<open>Interrupt attribution touches two fields only\<close>

lemma keys_of_update_existing:
  "k \<in> set (keys_of d) \<Longrightarrow> keys_of (AList.update k v d) = keys_of d"
  by (simp add: keys_of_update)

lemma set_int_usage_keys [simp]: "keys_of (set_int_usage item fs) = keys_of fs"
  by (simp add: set_int_usage_def Let_def keys_of_update_existing)

lemma fold_set_int_usage_keys [simp]: "keys_of (fold set_int_usage iu fs) = keys_of fs"
  by (induction iu arbitrary: fs) simp_all

lemma set_int_usage_map_of:
  "map_of fs k = Some f \<Longrightarrow>
     \<exists>ints sub. map_of (set_int_usage item fs) k = Some (f\<lparr>int_usage := ints, subsystem := sub\<rparr>)"
proof (cases "fst item = k \<and> fst item \<in> set (keys_of fs)")
  case True
  assume "map_of fs k = Some f"
  with True show ?thesis
    by (auto simp: set_int_usage_def Let_def)
next
  case False
  assume "map_of fs k = Some f"
  with False have "map_of (set_int_usage item fs) k = Some f"
    by (auto simp: set_int_usage_def Let_def)
  then have "map_of (set_int_usage item fs) k
               = Some (f\<lparr>int_usage := int_usage f, subsystem := subsystem f\<rparr>)"
    by simp
  then show ?thesis by blast
qed

lemma fold_set_int_usage_map_of:
  "map_of fs k = Some f \<Longrightarrow>
     \<exists>ints sub. map_of (fold set_int_usage iu fs) k = Some (f\<lparr>int_usage := ints, subsystem := sub\<rparr>)"
proof (induction iu arbitrary: fs f)
  case Nil
  then have "map_of (fold set_int_usage [] fs) k
               = Some (f\<lparr>int_usage := int_usage f, subsystem := subsystem f\<rparr>)"
    by simp
  then show ?case by blast
next
  case (Cons item iu)
  from set_int_usage_map_of [OF Cons.prems, of item]
  obtain i1 s1 where "map_of (set_int_usage item fs) k = Some (f\<lparr>int_usage := i1, subsystem := s1\<rparr>)"
    by blast
  from Cons.IH [OF this]
  show ?case by auto
qed

subsection \<open>Size estimation touches one field only\<close>

lemma estimate_one_keys:
  "sorted_addrs ! i \<in> set (keys_of fs) \<Longrightarrow> keys_of (estimate_one dat sorted_addrs i fs) = keys_of fs"
  by (simp add: estimate_one_def Let_def keys_of_update_existing)

lemma fold_estimate_one:
  assumes "distinct ks" and "set ks \<subseteq> set (keys_of fs)" and "n \<le> length ks"
  shows "keys_of (fold (estimate_one dat ks) [0..<n] fs) = keys_of fs
       \<and> (\<forall>i<length ks. map_of (fold (estimate_one dat ks) [0..<n] fs) (ks ! i)
             = (if i < n then Some ((the (map_of fs (ks ! i)))\<lparr>size_bytes := estimate_size dat ks i\<rparr>)
                else map_of fs (ks ! i)))"
  using assms(3)
proof (induction n)
  case 0
  then show ?case by simp
next
  case (Suc n)
  then have IH: "keys_of (fold (estimate_one dat ks) [0..<n] fs) = keys_of fs"
    "\<And>i. i < length ks \<Longrightarrow> map_of (fold (estimate_one dat ks) [0..<n] fs) (ks ! i)
             = (if i < n then Some ((the (map_of fs (ks ! i)))\<lparr>size_bytes := estimate_size dat ks i\<rparr>)
                else map_of fs (ks ! i))"
    by auto
  from Suc.prems have n: "n < length ks" by simp
  then have mem: "ks ! n \<in> set (keys_of fs)" using assms(2) by auto
  have step: "fold (estimate_one dat ks) [0..<Suc n] fs
                = estimate_one dat ks n (fold (estimate_one dat ks) [0..<n] fs)"
    by simp
  have "keys_of (fold (estimate_one dat ks) [0..<Suc n] fs) = keys_of fs"
    unfolding step using mem by (simp add: estimate_one_keys IH(1))
  moreover have "map_of (fold (estimate_one dat ks) [0..<Suc n] fs) (ks ! i)
             = (if i < Suc n then Some ((the (map_of fs (ks ! i)))\<lparr>size_bytes := estimate_size dat ks i\<rparr>)
                else map_of fs (ks ! i))" if i: "i < length ks" for i
  proof (cases "i = n")
    case True
    then show ?thesis
      unfolding step using IH(2) [OF n] by (simp add: estimate_one_def Let_def)
  next
    case False
    then have "ks ! i \<noteq> ks ! n"
      using assms(1) i n by (simp add: nth_eq_iff_index_eq)
    then show ?thesis
      unfolding step using IH(2) [OF i] False by (auto simp: estimate_one_def Let_def)
  qed
  ultimately show ?case by blast
qed

subsection \<open>The shape of the exported catalog\<close>

lemma fold_estimate_one_keys:
  "set ks \<subseteq> set (keys_of fs) \<Longrightarrow> \<forall>i\<in>set xs. i < length ks \<Longrightarrow>
     keys_of (fold (estimate_one dat ks) xs fs) = keys_of fs"
proof (induction xs arbitrary: fs)
  case Nil
  then show ?case by simp
next
  case (Cons a xs)
  then have "ks ! a \<in> set (keys_of fs)" by auto
  then have k: "keys_of (estimate_one dat ks a fs) = keys_of fs"
    by (rule estimate_one_keys)
  from Cons.IH [of "estimate_one dat ks a fs"] Cons.prems k
  show ?case by simp
qed

lemma analyze_keys:
  "keys_of (functions' (analyze s)) = keys_of (functions' (merge_candidates (add_entry s)))"
proof -
  define s2 where "s2 = attribute_interrupts (merge_candidates (add_entry s))"
  have k2: "keys_of (functions' s2) = keys_of (functions' (merge_candidates (add_entry s)))"
    by (simp add: s2_def attribute_interrupts_def)
  have "keys_of (functions' (estimate_function_sizes s2)) = keys_of (functions' s2)"
    by (simp add: estimate_function_sizes_def Let_def fold_estimate_one_keys)
  then show ?thesis
    by (simp add: analyze_def s2_def [symmetric] k2)
qed

lemma catalog_shape:
  assumes p: "parse_mz_header buf = Inr s"
  defines "ks \<equiv> sort (keys_of (functions' (analyze s)))"
  shows "set ks = insert (entry_point s) {a \<in> snd ` set (discovered_sites s). code_start s \<le> a}"
    and "distinct ks" and "sorted ks"
    and "length (export_json (analyze s)) = length ks"
    and "\<And>i. i < length ks \<Longrightarrow>
           \<exists>ints sub. export_json (analyze s) ! i =
              (merged_record s (ks ! i))
                \<lparr>size_bytes := estimate_size buf ks i, subsystem := sub,
                 callers := take 10 (callers (merged_record s (ks ! i))), int_usage := ints\<rparr>"
proof -
  note init = parse_mz_header_Inr(6,7) [OF p]
  note dat = parse_mz_header_Inr(3) [OF p]
  define s1 where "s1 = merge_candidates (add_entry s)"
  define s2 where "s2 = attribute_interrupts s1"
  have an: "analyze s = estimate_function_sizes s2"
    by (simp add: analyze_def s2_def s1_def)
  have ks1: "ks = sort (keys_of (functions' s1))"
    by (simp add: ks_def analyze_keys s1_def)
  have k2: "keys_of (functions' s2) = keys_of (functions' s1)"
    by (simp add: s2_def attribute_interrupts_def)
  have d2: "data s2 = buf"
    by (simp add: s2_def s1_def dat)
  show set: "set ks = insert (entry_point s) {a \<in> snd ` set (discovered_sites s). code_start s \<le> a}"
    using merge_candidates_keys(1) [OF init] by (simp add: ks1 s1_def)
  show dist: "distinct ks"
    using merge_candidates_keys(2) [OF init] by (simp add: ks1 s1_def)
  show "sorted ks" by (simp add: ks_def)
  show "length (export_json (analyze s)) = length ks"
    by (simp add: export_json_def ks_def)
  fix i assume i: "i < length ks"
  let ?k = "ks ! i"
  have kin: "?k \<in> set ks" using i by simp
  have m1: "map_of (functions' s1) ?k = Some (merged_record s ?k)"
    using kin unfolding set s1_def merge_candidates_map_of [OF init] by auto
  obtain ints sub where m2:
    "map_of (functions' s2) ?k = Some ((merged_record s ?k)\<lparr>int_usage := ints, subsystem := sub\<rparr>)"
    using fold_set_int_usage_map_of [OF m1, of "find_interrupt_handlers s1"]
    unfolding s2_def attribute_interrupts_def by auto
  have sub: "set ks \<subseteq> set (keys_of (functions' s2))"
    by (simp add: ks1 k2)
  have f3: "functions' (analyze s) = fold (estimate_one buf ks) [0..<length ks] (functions' s2)"
    by (simp add: an estimate_function_sizes_def Let_def ks1 k2 d2)
  from fold_estimate_one [OF dist sub order_refl, of buf] i
  have m3: "map_of (functions' (analyze s)) ?k
              = Some ((the (map_of (functions' s2) ?k))\<lparr>size_bytes := estimate_size buf ks i\<rparr>)"
    unfolding f3 by simp
  have "export_json (analyze s) ! i =
              (merged_record s ?k)
                \<lparr>size_bytes := estimate_size buf ks i, subsystem := sub,
                 callers := take 10 (callers (merged_record s ?k)), int_usage := ints\<rparr>"
    using i by (simp add: export_json_def ks_def [symmetric] m3 m2 Let_def)
  then show "\<exists>ints sub. export_json (analyze s) ! i =
              (merged_record s ?k)
                \<lparr>size_bytes := estimate_size buf ks i, subsystem := sub,
                 callers := take 10 (callers (merged_record s ?k)), int_usage := ints\<rparr>"
    by blast
qed

lemma main_catalog_Inr:
  "main_catalog buf = Inr cat \<Longrightarrow> \<exists>s. parse_mz_header buf = Inr s \<and> cat = export_json (analyze s)"
  by (cases "parse_mz_header buf") (auto simp: main_catalog_def DOSExeAnalyzer_init_def)

lemma main_catalog_eq:
  "parse_mz_header buf = Inr s \<Longrightarrow> main_catalog buf = Inr (export_json (analyze s))"
  by (simp add: main_catalog_def DOSExeAnalyzer_init_def)

lemma merged_record_fields [simp]:
  "entry_linear (merged_record s k) = hex_addr k"
  "callers (merged_record s k)
     = (if k = entry_point s then [] else map hex_addr (sites_of (discovered_sites s) k))"
  "name (merged_record s k) = (if k = entry_point s then ''entry'' else ''FUN_'' @ format_0X 5 k)"
  by (simp_all add: merged_record_def FunctionInfo_new_def)

lemma merged_record_notes:
  "notes' (merged_record s (entry_point s)) = ''Program entry point''"
  by (simp add: merged_record_def FunctionInfo_new_def)

text \<open>The addresses of the exported records are the sorted keys of the dictionary.\<close>

lemma catalog_addresses:
  assumes p: "parse_mz_header buf = Inr s"
  shows "map (\<lambda>r. parse_addr (entry_linear r)) (export_json (analyze s))
           = sort (keys_of (functions' (analyze s)))"
    and "map entry_linear (export_json (analyze s))
           = map hex_addr (sort (keys_of (functions' (analyze s))))"
proof -
  let ?ks = "sort (keys_of (functions' (analyze s)))"
  note sh = catalog_shape [OF p]
  have e: "entry_linear (export_json (analyze s) ! i) = hex_addr (?ks ! i)" if "i < length ?ks" for i
    using sh(5) [OF that] by auto
  show "map entry_linear (export_json (analyze s)) = map hex_addr ?ks"
    using sh(4) e by (auto simp: list_eq_iff_nth_eq)
  then have "map parse_addr (map entry_linear (export_json (analyze s))) = map parse_addr (map hex_addr ?ks)"
    by simp
  then show "map (\<lambda>r. parse_addr (entry_linear r)) (export_json (analyze s)) = ?ks"
    by (simp add: comp_def)
qed

text \<open>Every exported record is the element at some index, with the address at that index.\<close>

lemma catalog_record:
  assumes p: "parse_mz_header buf = Inr s" and r: "r \<in> set (export_json (analyze s))"
  defines "ks \<equiv> sort (keys_of (functions' (analyze s)))"
  shows "\<exists>i ints sub. i < length ks \<and> r = export_json (analyze s) ! i
           \<and> parse_addr (entry_linear r) = ks ! i
           \<and> r = (merged_record s (ks ! i))
                \<lparr>size_bytes := estimate_size buf ks i, subsystem := sub,
                 callers := take 10 (callers (merged_record s (ks ! i))), int_usage := ints\<rparr>"
proof -
  note sh = catalog_shape [OF p, folded ks_def]
  from r obtain i where i: "i < length ks" and ri: "r = export_json (analyze s) ! i"
    using sh(4) by (metis in_set_conv_nth)
  from sh(5) [OF i] obtain ints sub where
    e: "export_json (analyze s) ! i = (merged_record s (ks ! i))
                \<lparr>size_bytes := estimate_size buf ks i, subsystem := sub,
                 callers := take 10 (callers (merged_record s (ks ! i))), int_usage := ints\<rparr>"
    by blast
  have "parse_addr (entry_linear r) = ks ! i"
    unfolding ri e by simp
  with i ri e show ?thesis by metis
qed


lemma catalog_callers:
  assumes p: "parse_mz_header buf = Inr s" and r: "r \<in> set (export_json (analyze s))"
  shows "callers r =
           take 10 (if parse_addr (entry_linear r) = entry_point s then []
                    else map hex_addr (sites_of (discovered_sites s) (parse_addr (entry_linear r))))"
proof -
  from catalog_record [OF p r]
  obtain i ints sub where
    a: "parse_addr (entry_linear r) = sort (keys_of (functions' (analyze s))) ! i"
    and b: "r = (merged_record s (sort (keys_of (functions' (analyze s))) ! i))
              \<lparr>size_bytes := estimate_size buf (sort (keys_of (functions' (analyze s)))) i,
               subsystem := sub,
               callers := take 10 (callers (merged_record s (sort (keys_of (functions' (analyze s))) ! i))),
               int_usage := ints\<rparr>"
    by blast
  have "callers r = take 10 (callers (merged_record s (parse_addr (entry_linear r))))"
    by (subst b) (simp add: a)
  then show ?thesis by simp
qed

subsection \<open>The search for the first return opcode\<close>

lemma find_ret_Cons:
  "find_ret (b # bs) j = (if is_ret b then Some (j + 1) else find_ret bs (j + 1))"
  by (simp add: is_ret_def)

declare find_ret.simps(2) [simp del]

lemma find_ret_None:
  "find_ret code j = None \<longleftrightarrow> (\<forall>b\<in>set code. \<not> is_ret b)"
  by (induction code arbitrary: j) (simp_all add: find_ret_Cons)

lemma find_ret_Some:
  "find_ret code j = Some r \<Longrightarrow>
     \<exists>k<length code. r = j + k + 1 \<and> is_ret (code ! k)
        \<and> (\<forall>m<k. \<not> is_ret (code ! m))"
proof (induction code arbitrary: j)
  case Nil
  then show ?case by simp
next
  case (Cons b code)
  show ?case
  proof (cases "is_ret b")
    case True
    with Cons.prems have "r = j + 0 + 1" by (simp add: find_ret_Cons)
    with True show ?thesis by (intro exI [of _ 0]) simp
  next
    case False
    with Cons.prems have "find_ret code (j + 1) = Some r" by (simp add: find_ret_Cons)
    from Cons.IH [OF this] obtain k where k: "k < length code" "r = j + 1 + k + 1"
      "is_ret (code ! k)"
      "\<forall>m<k. \<not> is_ret (code ! m)"
      by blast
    have "\<forall>m<Suc k. \<not> is_ret ((b # code) ! m)"
      using False k(4) by (auto simp: less_Suc_eq_0_disj)
    with k show ?thesis by (intro exI [of _ "Suc k"]) simp
  qed
qed

lemma first_ret_unique:
  assumes "is_ret (w ! j)" "\<forall>k<j. \<not> is_ret (w ! k)"
    and "is_ret (w ! j')" "\<forall>k<j'. \<not> is_ret (w ! k)"
  shows "j = j'"
proof (rule ccontr)
  assume "j \<noteq> j'"
  then consider "j < j'" | "j' < j" by arith
  then show False using assms by cases blast+
qed

text \<open>The size that \<open>estimate_size\<close> computes, in the two cases.\<close>

lemma estimate_size_no_ret:
  assumes "nxt = (if i + 1 < length ks then ks ! (i + 1) else length dat)"
    and "\<forall>b\<in>set (py_slice dat (ks ! i) nxt). \<not> is_ret b"
  shows "estimate_size dat ks i = min (int nxt - int (ks ! i)) 65535"
proof -
  have "find_ret (py_slice dat (ks ! i) nxt) 0 = None"
    using assms(2) by (simp only: find_ret_None)
  then show ?thesis
    unfolding estimate_size_def Let_def assms(1) [symmetric] by simp
qed

lemma estimate_size_ret:
  assumes "nxt = (if i + 1 < length ks then ks ! (i + 1) else length dat)"
    and "w = py_slice dat (ks ! i) nxt"
    and "j < length w" and "is_ret (w ! j)"
    and "\<forall>k<j. \<not> is_ret (w ! k)"
  shows "estimate_size dat ks i = int j + 1"
proof -
  have "find_ret w 0 \<noteq> None"
    using assms(3,4) nth_mem [of j w] unfolding find_ret_None by blast
  then obtain r where r: "find_ret w 0 = Some r" by blast
  from find_ret_Some [OF r] obtain k where k: "k < length w" "r = k + 1"
    "is_ret (w ! k)"
    "\<forall>m<k. \<not> is_ret (w ! m)"
    by auto
  have "k = j"
    by (rule first_ret_unique [OF k(3,4) assms(4,5)])
  with r k(2) show ?thesis
    unfolding estimate_size_def Let_def assms(1) [symmetric] assms(2) [symmetric] by simp
qed


lemma catalog_sizes:
  assumes p: "parse_mz_header buf = Inr s"
    and i: "i < length (export_json (analyze s))"
  shows "size_bytes (export_json (analyze s) ! i)
           = estimate_size buf (map (\<lambda>r. parse_addr (entry_linear r)) (export_json (analyze s))) i"
proof -
  let ?ks = "sort (keys_of (functions' (analyze s)))"
  note sh = catalog_shape [OF p]
  from i sh(4) have i': "i < length ?ks" by simp
  from sh(5) [OF i'] show ?thesis
    unfolding catalog_addresses(1) [OF p] by auto
qed



subsection \<open>Images without call and interrupt opcodes\<close>

lemma call_sites_none:
  "\<forall>b\<in>set code. b \<noteq> CALL_NEAR_REL16 \<and> b \<noteq> CALL_FAR_PTR \<Longrightarrow> call_sites cstart dlen code i = []"
proof (induction cstart dlen code i rule: call_sites.induct)
  case (1 cstart dlen code i)
  show ?case
  proof (cases "i + 3 < length code")
    case False
    then show ?thesis by (simp add: call_sites.simps [of cstart dlen code i])
  next
    case True
    then have "code ! i \<in> set code" by simp
    with "1.prems" have ne: "code ! i \<noteq> CALL_NEAR_REL16" "code ! i \<noteq> CALL_FAR_PTR" by blast+
    from "1.IH"(3) [OF True ne "1.prems"] True ne show ?thesis
      by (simp add: call_sites.simps [of cstart dlen code i])
  qed
qed

lemma int_scan_none:
  "\<forall>b\<in>set code. b \<noteq> 0xCD \<Longrightarrow> int_scan cstart code fs i iu = iu"
proof (induction cstart code fs i iu rule: int_scan.induct)
  case (1 cstart code fs i iu)
  show ?case
  proof (cases "i + 1 < length code")
    case False
    then show ?thesis by (simp add: int_scan.simps [of cstart code fs i])
  next
    case True
    then have "code ! i \<in> set code" by simp
    with "1.prems" have ne: "code ! i \<noteq> 0xCD" by blast
    from True have c: "int i < int (length code) - 1" by simp
    from "1.IH"(2) [OF c ne "1.prems"] True ne show ?thesis
      by (simp add: int_scan.simps [of cstart code fs i])
  qed
qed

lemma quiet_catalog:
  assumes p: "parse_mz_header buf = Inr s"
    and q: "\<forall>b\<in>set (drop (code_start s) buf). b \<noteq> CALL_NEAR_REL16 \<and> b \<noteq> CALL_FAR_PTR \<and> b \<noteq> 0xCD"
  shows "main_catalog buf =
           Inr [\<lparr>name = ''entry'', entry_linear = hex_addr (entry_point s),
                 size_bytes = estimate_size buf [entry_point s] 0, stack_frame_size = 0,
                 subsystem = ''unknown'', callers = [], int_usage = [],
                 source_recording_id = [], notes' = ''Program entry point''\<rparr>]"
proof -
  note init = parse_mz_header_Inr(6,7) [OF p]
  note d = parse_mz_header_Inr(3) [OF p]
  have sites: "discovered_sites s = []"
    unfolding discovered_sites_def d using q by (intro call_sites_none) blast
  have calls: "find_call_targets s = ([], [])"
    by (simp add: find_call_targets_def call_scan_sites init
        sites [unfolded discovered_sites_def])
  have f1: "functions' (merge_candidates (add_entry s))
              = [(entry_point s, FunctionInfo_new ''entry'' (hex_addr (entry_point s)) []
                    ''Program entry point'')]"
    by (simp add: merge_candidates_def Let_def calls) (simp add: add_entry_def init)
  have iu: "find_interrupt_handlers (merge_candidates (add_entry s)) = []"
    unfolding find_interrupt_handlers_def using q by (simp add: d int_scan_none)
  have f2: "functions' (attribute_interrupts (merge_candidates (add_entry s)))
              = [(entry_point s, FunctionInfo_new ''entry'' (hex_addr (entry_point s)) []
                    ''Program entry point'')]"
    by (simp add: attribute_interrupts_def iu f1)
  have f3: "functions' (analyze s)
              = [(entry_point s, (FunctionInfo_new ''entry'' (hex_addr (entry_point s)) []
                    ''Program entry point'')\<lparr>size_bytes := estimate_size buf [entry_point s] 0\<rparr>)]"
    by (simp add: analyze_def estimate_function_sizes_def Let_def f2 keys_of_def
        estimate_one_def d)
  show ?thesis
    by (simp add: main_catalog_eq [OF p] export_json_def f3 keys_of_def FunctionInfo_new_def)
qed

subsection \<open>Interrupt tags\<close>

lemma int_scan_tag:
  "''0x'' @ format_0X 2 (unat v) = int_tag v"
  by (simp add: int_tag_def)

lemma int_tag_inj: "int_tag v = int_tag w \<longleftrightarrow> v = w"
proof
  assume "int_tag v = int_tag w"
  then have "parse_X (drop 2 (int_tag v)) = parse_X (drop 2 (int_tag w))" by simp
  then have "unat v = unat w" by (simp add: int_tag_def parse_X_format_0X)
  then show "v = w" by (rule word_unat_eq_iff [THEN iffD2])
qed simp

lemma int_tag_values:
  "int_tag 0x10 = ''0x10''" "int_tag 0x21 = ''0x21''" "int_tag 0x16 = ''0x16''"
  "int_tag 0x08 = ''0x08''" "int_tag 0x1C = ''0x1C''" "int_tag 0x33 = ''0x33''"
  "int_tag 0x80 = ''0x80''" "int_tag 0x81 = ''0x81''"
  by (simp_all add: int_tag_def format_0X_def format_X.simps hex_digit_def)

lemma int_tag_mem: "int_tag v \<in> set (map int_tag vs) \<longleftrightarrow> v \<in> set vs"
  by (auto simp: int_tag_inj)

subsection \<open>The prologue scan\<close>

lemma bytes_find_Some:
  "bytes_find buf pat pos = Some idx \<Longrightarrow>
     pos \<le> idx \<and> idx + length pat \<le> length buf \<and> take (length pat) (drop idx buf) = pat
     \<and> (\<forall>j. pos \<le> j \<and> j < idx \<longrightarrow> take (length pat) (drop j buf) \<noteq> pat)"
proof (induction buf pat pos rule: bytes_find.induct)
  case (1 buf pat pos)
  show ?case
  proof (cases "length buf < pos + length pat")
    case True
    with "1.prems" show ?thesis by (simp add: bytes_find.simps [of buf pat pos])
  next
    case False
    show ?thesis
    proof (cases "take (length pat) (drop pos buf) = pat")
      case True
      with False "1.prems" have "idx = pos" by (simp add: bytes_find.simps [of buf pat pos])
      with True False show ?thesis by auto
    next
      case ne: False
      with False "1.prems" have "bytes_find buf pat (Suc pos) = Some idx"
        by (simp add: bytes_find.simps [of buf pat pos])
      from "1.IH" [OF False ne this]
      have ih: "Suc pos \<le> idx" "idx + length pat \<le> length buf"
        "take (length pat) (drop idx buf) = pat"
        "\<forall>j. Suc pos \<le> j \<and> j < idx \<longrightarrow> take (length pat) (drop j buf) \<noteq> pat"
        by blast+
      have "take (length pat) (drop j buf) \<noteq> pat" if "pos \<le> j" "j < idx" for j
      proof (cases "j = pos")
        case True
        with ne show ?thesis by simp
      next
        case False
        with that ih(4) show ?thesis by simp
      qed
      with ih show ?thesis by simp
    qed
  qed
qed

lemma bytes_find_None:
  "bytes_find buf pat pos = None \<Longrightarrow> pos \<le> j \<Longrightarrow> j + length pat \<le> length buf \<Longrightarrow>
     take (length pat) (drop j buf) \<noteq> pat"
proof (induction buf pat pos rule: bytes_find.induct)
  case (1 buf pat pos)
  show ?case
  proof (cases "length buf < pos + length pat")
    case True
    with "1.prems" show ?thesis by simp
  next
    case False
    with "1.prems"(1) have ne: "take (length pat) (drop pos buf) \<noteq> pat"
      and nx: "bytes_find buf pat (Suc pos) = None"
      by (auto simp: bytes_find.simps [of buf pat pos] split: if_splits)
    show ?thesis
    proof (cases "j = pos")
      case True
      with ne show ?thesis by simp
    next
      case jp: False
      with "1.prems"(2) have "Suc pos \<le> j" by simp
      from "1.IH" [OF False ne nx this "1.prems"(3)] show ?thesis .
    qed
  qed
qed

text \<open>The addresses one pattern adds: every occurrence at or after the search position,
  except the occurrences of the bare pattern that the filter rejects.\<close>

lemma scan_pattern_step:
  assumes "bytes_find code pat pos = Some idx"
  shows "scan_pattern cstart code pat pos prologues =
           scan_pattern cstart code pat (idx + 1)
             (if rejected_at code pat idx then prologues else List.insert (cstart + idx) prologues)"
  using assms by (simp add: scan_pattern.simps [of cstart code pat pos] rejected_at_def)

lemma scan_pattern_done:
  "bytes_find code pat pos = None \<Longrightarrow> scan_pattern cstart code pat pos prologues = prologues"
  by (simp add: scan_pattern.simps [of cstart code pat pos])

lemma occurrences_from:
  assumes "bytes_find code pat pos = Some idx"
  shows "{j. pos \<le> j \<and> occurs_at code pat j \<and> \<not> rejected_at code pat j}
           = (if rejected_at code pat idx then {} else {idx})
             \<union> {j. idx + 1 \<le> j \<and> occurs_at code pat j \<and> \<not> rejected_at code pat j}"
proof -
  from bytes_find_Some [OF assms]
  have le: "pos \<le> idx" and occ: "occurs_at code pat idx"
    and first: "\<And>j. pos \<le> j \<Longrightarrow> occurs_at code pat j \<Longrightarrow> idx \<le> j"
    unfolding occurs_at_def by (simp, simp, meson not_le_imp_less)
  show ?thesis
  proof (intro set_eqI iffI)
    fix j assume a: "j \<in> {j. pos \<le> j \<and> occurs_at code pat j \<and> \<not> rejected_at code pat j}"
    then have "idx \<le> j" using first by simp
    then have "j = idx \<or> idx + 1 \<le> j" by arith
    with a show "j \<in> (if rejected_at code pat idx then {} else {idx})
             \<union> {j. idx + 1 \<le> j \<and> occurs_at code pat j \<and> \<not> rejected_at code pat j}"
      by (cases "j = idx") simp_all
  next
    fix j assume a: "j \<in> (if rejected_at code pat idx then {} else {idx})
             \<union> {j. idx + 1 \<le> j \<and> occurs_at code pat j \<and> \<not> rejected_at code pat j}"
    show "j \<in> {j. pos \<le> j \<and> occurs_at code pat j \<and> \<not> rejected_at code pat j}"
    proof (cases "j = idx")
      case True
      with a le occ show ?thesis by (simp split: if_splits)
    next
      case False
      with a have "idx + 1 \<le> j" "occurs_at code pat j" "\<not> rejected_at code pat j"
        by (simp_all split: if_splits)
      with le show ?thesis by simp
    qed
  qed
qed

lemma scan_pattern_set:
  "set (scan_pattern cstart code pat pos prologues) =
     set prologues \<union>
     (\<lambda>idx. cstart + idx) ` {idx. pos \<le> idx \<and> occurs_at code pat idx \<and> \<not> rejected_at code pat idx}"
proof (induction cstart code pat pos prologues rule: scan_pattern.induct)
  case (1 cstart code pat pos prologues)
  show ?case
  proof (cases "bytes_find code pat pos")
    case None
    have e: "{idx. pos \<le> idx \<and> occurs_at code pat idx \<and> \<not> rejected_at code pat idx} = {}"
      using bytes_find_None [OF None] unfolding occurs_at_def by blast
    show ?thesis
      unfolding scan_pattern_done [OF None] e by simp
  next
    case (Some idx)
    note o = occurrences_from [OF Some]
    show ?thesis
    proof (cases "rejected_at code pat idx")
      case True
      then have r: "pat = [0x55] \<and> idx + 1 < length code \<and> code ! (idx + 1) \<notin> set PUSH_BP_FOLLOWERS"
        by (simp add: rejected_at_def)
      from "1.IH"(1) [OF Some r] True show ?thesis
        unfolding scan_pattern_step [OF Some] o by simp
    next
      case False
      then have r: "\<not> (pat = [0x55] \<and> idx + 1 < length code \<and> code ! (idx + 1) \<notin> set PUSH_BP_FOLLOWERS)"
        by (simp add: rejected_at_def)
      from "1.IH"(2) [OF Some r] False show ?thesis
        unfolding scan_pattern_step [OF Some] o by (simp add: image_Un)
    qed
  qed
qed

lemma bare_occurrence:
  "occurs_at code [0x55] idx \<longleftrightarrow> idx < length code \<and> code ! idx = 0x55"
proof (cases "idx < length code")
  case True
  then have "take (Suc 0) (drop idx code) = [code ! idx]"
    by (simp add: take_Suc_conv_app_nth)
  with True show ?thesis by (simp add: occurs_at_def)
next
  case False
  then show ?thesis by (simp add: occurs_at_def)
qed

subsection \<open>The example image, evaluated step by step\<close>

lemma demo_length: "length demo_image = 100"
  by (simp add: demo_image_def)

lemma demo_code_eq: "demo_code =
     [0x55, 0x8B, 0xEC, 0xCD, 0x21, 0xCD, 0x10, 0x90, 0xC3,
      0xE8, 0x2E, 0, 0xE8, 0x2B, 0, 0xE8, 0x28, 0, 0xE8, 0x25, 0,
      0xE8, 0x22, 0, 0xE8, 0x1F, 0, 0xE8, 0x1C, 0, 0xE8, 0x19, 0,
      0xE8, 0x16, 0, 0xE8, 0x13, 0, 0xE8, 0x10, 0,
      0xE8, 0xD3, 0xFF,
      0x9A, 0x5A, 0, 0, 0,
      0x55, 0x8B, 0xEC, 0xC3,
      0x90, 0x90, 0x90, 0x90,
      0x55, 0x8B, 0xEC, 0xCD, 0x16, 0xC3,
      0x90, 0x90, 0x90, 0x90]"
  by (simp add: demo_code_def demo_image_def)

lemma demo_parse: "parse_mz_header demo_image = Inr demo_state"
proof -
  have m: "take 2 demo_image = [0x4D, 0x5A]" by (simp add: demo_image_def)
  have l: "26 \<le> length demo_image" by (simp add: demo_length)
  have r: "read_H demo_image 2 = 0" "read_H demo_image 4 = 0" "read_H demo_image 6 = 0"
    "read_H demo_image 8 = 2" "read_H demo_image 10 = 0" "read_H demo_image 12 = 0"
    "read_H demo_image 14 = 0" "read_H demo_image 16 = 0" "read_H demo_image 18 = 0"
    "read_H demo_image 20 = 32" "read_H demo_image 22 = 0" "read_H demo_image 24 = 0"
    by (simp_all add: demo_image_def read_H_def le16_def)
  show ?thesis
    unfolding parse_mz_header_ok [OF m l] r demo_state_def by simp
qed

lemma demo_prologues: "find_prologue_patterns demo_state = [90, 82, 32]"
  by (simp add: find_prologue_patterns_def demo_state_def demo_code_def [symmetric]
      PROLOGUE_PATTERNS_def)
     (simp add: demo_code_eq scan_pattern.simps bytes_find.simps PUSH_BP_FOLLOWERS_def)

lemma demo_calls: "find_call_targets demo_state =
   ([32, 90], [(90, [41, 44, 47, 50, 53, 56, 59, 62, 65, 68, 71, 77]), (32, [74])])"
  by (simp add: find_call_targets_def demo_state_def demo_code_def [symmetric] demo_length)
     (simp add: demo_code_eq call_scan.simps CALL_NEAR_REL16_def CALL_FAR_PTR_def CALL_RM16_def
        read_h_def read_H_def le16s_def le16_def record_call_def keys_of_def)


lemma int_scan_stop: "length code \<le> i + 1 \<Longrightarrow> int_scan cstart code fs i iu = iu"
  by (simp add: int_scan.simps [of cstart code fs i])

lemma int_scan_miss:
  "i + 1 < length code \<Longrightarrow> code ! i \<noteq> 0xCD \<Longrightarrow>
     int_scan cstart code fs i iu = int_scan cstart code fs (i + 1) iu"
  by (simp add: int_scan.simps [of cstart code fs i])

lemma int_scan_hit:
  "i + 1 < length code \<Longrightarrow> code ! i = 0xCD \<Longrightarrow>
     int_scan cstart code fs i iu =
       int_scan cstart code fs (i + 2)
         (case find_containing_function fs (cstart + i) of
            None \<Rightarrow> iu
          | Some func_addr \<Rightarrow>
              note_interrupt func_addr (''0x'' @ format_0X 2 (unat (code ! (i + 1)))) iu)"
  by (simp add: int_scan.simps [of cstart code fs i] Let_def cong: option.case_cong)

lemma replicate_three: "replicate 3 x = [x, x, x]"
  by (simp add: numeral_3_eq_3)

lemmas format_eval = hex_addr_def format_0X_def format_X.simps hex_digit_def replicate_three

lemma demo_formats: "hex_addr 32 = ''0x20''" "hex_addr 90 = ''0x5A''" "format_0X 5 90 = ''0005A''"
  by (simp_all add: format_eval)

lemma demo_add_entry: "functions' (add_entry demo_state)
   = [(32, FunctionInfo_new ''entry'' ''0x20'' [] ''Program entry point'')]"
  by (simp add: add_entry_def demo_state_def demo_formats)

lemma demo_merged: "functions' (merge_candidates (add_entry demo_state))
   = [(32, FunctionInfo_new ''entry'' ''0x20'' [] ''Program entry point''),
      (90, FunctionInfo_new ''FUN_0005A'' ''0x5A''
             [''0x29'', ''0x2C'', ''0x2F'', ''0x32'', ''0x35'', ''0x38'', ''0x3B'', ''0x3E'',
              ''0x41'', ''0x44'', ''0x47'', ''0x4D'']
             ''auto-discovered (prologue+call)'')]"
  by (simp add: merge_candidates_def Let_def demo_prologues demo_calls demo_add_entry)
     (simp add: add_candidate_def keys_of_def demo_state_def format_eval)

lemma demo_interrupts: "find_interrupt_handlers (merge_candidates (add_entry demo_state))
   = [(32, [''0x21'', ''0x10'']), (90, [''0x16''])]"
proof -
  have "find_interrupt_handlers (merge_candidates (add_entry demo_state))
          = int_scan 32 demo_code (functions' (merge_candidates (add_entry demo_state))) 0 []"
    by (simp add: find_interrupt_handlers_def) (simp add: demo_state_def demo_code_def)
  also have "\<dots> = [(32, [''0x21'', ''0x10'']), (90, [''0x16''])]"
    unfolding demo_merged
    by (simp add: demo_code_eq int_scan_stop int_scan_hit int_scan_miss
        find_containing_function_def keys_of_def note_interrupt_def format_eval)
  finally show ?thesis .
qed

lemma demo_attributed: "functions' (attribute_interrupts (merge_candidates (add_entry demo_state)))
   = [(32, \<lparr>name = ''entry'', entry_linear = ''0x20'', size_bytes = 0,
         stack_frame_size = 0, subsystem = ''video'', callers = [],
         int_usage = [''0x21'', ''0x10''], source_recording_id = [],
         notes' = ''Program entry point''\<rparr>),
      (90, \<lparr>name = ''FUN_0005A'', entry_linear = ''0x5A'', size_bytes = 0,
         stack_frame_size = 0, subsystem = ''input'',
         callers =
           [''0x29'', ''0x2C'', ''0x2F'', ''0x32'', ''0x35'', ''0x38'',
            ''0x3B'', ''0x3E'', ''0x41'', ''0x44'', ''0x47'', ''0x4D''],
         int_usage = [''0x16''], source_recording_id = [],
         notes' = ''auto-discovered (prologue+call)''\<rparr>)]"
  by (simp add: attribute_interrupts_def demo_interrupts demo_merged)
     (simp add: set_int_usage_def keys_of_def classify_subsystem_def FunctionInfo_new_def)

lemma demo_sizes: "estimate_size demo_image [32, 90] 0 = 9" "estimate_size demo_image [32, 90] (Suc 0) = 6"
  by (simp_all add: estimate_size_def demo_length)
     (simp_all add: demo_image_def py_slice_def find_ret_Cons is_ret_def RET_NEAR_def
        RET_NEAR_IMM_def RET_FAR_def RET_FAR_IMM_def)

lemma demo_analyzed: "functions' (analyze demo_state)
   = [(32, \<lparr>name = ''entry'', entry_linear = ''0x20'', size_bytes = 9,
         stack_frame_size = 0, subsystem = ''video'', callers = [],
         int_usage = [''0x21'', ''0x10''], source_recording_id = [],
         notes' = ''Program entry point''\<rparr>),
      (90, \<lparr>name = ''FUN_0005A'', entry_linear = ''0x5A'', size_bytes = 6,
         stack_frame_size = 0, subsystem = ''input'',
         callers =
           [''0x29'', ''0x2C'', ''0x2F'', ''0x32'', ''0x35'', ''0x38'',
            ''0x3B'', ''0x3E'', ''0x41'', ''0x44'', ''0x47'', ''0x4D''],
         int_usage = [''0x16''], source_recording_id = [],
         notes' = ''auto-discovered (prologue+call)''\<rparr>)]"
  by (simp add: analyze_def estimate_function_sizes_def Let_def demo_attributed keys_of_def)
     (simp add: estimate_one_def demo_sizes demo_state_def)

lemma demo_catalog_eval: "main_catalog demo_image = Inr demo_catalog"
  by (simp add: main_catalog_eq [OF demo_parse] export_json_def demo_analyzed keys_of_def
      demo_catalog_def)

subsection \<open>The small example images\<close>

lemma parse_image_state:
  assumes "take 2 buf = [0x4D, 0x5A]" and "26 \<le> length buf"
    and "read_H buf 2 = 0" "read_H buf 4 = 0" "read_H buf 6 = 0" "read_H buf 10 = 0"
    and "read_H buf 12 = 0" "read_H buf 14 = 0" "read_H buf 16 = 0" "read_H buf 18 = 0"
    and "read_H buf 24 = 0"
  shows "parse_mz_header buf
           = Inr (image_state buf (read_H buf 8) (read_H buf 20) (read_H buf 22))"
  unfolding parse_mz_header_ok [OF assms(1,2)] image_state_def
  by (simp add: assms)

lemma image_state_fields [simp]:
  "data (image_state buf p ip cs) = buf" "code_start (image_state buf p ip cs) = p * 16"
  "entry_point (image_state buf p ip cs) = cs * 16 + ip"
  "functions' (image_state buf p ip cs) = []" "call_sources (image_state buf p ip cs) = []"
  by (simp_all add: image_state_def)

lemma plain_parse: "parse_mz_header plain_image = Inr (image_state plain_image 2 32 0)"
proof -
  have r: "read_H plain_image 8 = 2" "read_H plain_image 20 = 32" "read_H plain_image 22 = 0"
    by (simp_all add: plain_image_def read_H_def le16_def)
  show ?thesis
    by (rule parse_image_state [of plain_image, unfolded r])
       (simp_all add: plain_image_def read_H_def le16_def)
qed

lemma plain_catalog_eval: "main_catalog plain_image = Inr plain_catalog"
proof -
  have q: "\<forall>b\<in>set (drop (code_start (image_state plain_image 2 32 0)) plain_image).
             b \<noteq> CALL_NEAR_REL16 \<and> b \<noteq> CALL_FAR_PTR \<and> b \<noteq> 0xCD"
    by (simp add: plain_image_def CALL_NEAR_REL16_def CALL_FAR_PTR_def)
  have sz: "estimate_size plain_image [32] 0 = 8"
    by (simp add: estimate_size_def)
       (simp add: plain_image_def py_slice_def find_ret_Cons is_ret_def RET_NEAR_def
          RET_NEAR_IMM_def RET_FAR_def RET_FAR_IMM_def)
  show ?thesis
    using quiet_catalog [OF plain_parse q] by (simp add: sz demo_formats plain_catalog_def)
qed

lemma plain_scans:
  "find_prologue_patterns (image_state plain_image 2 32 0) = [32]"
  "find_call_targets (image_state plain_image 2 32 0) = ([], [])"
proof -
  have c: "drop 32 plain_image = [0x55, 0x8B, 0xEC, 0x90, 0x90, 0x90, 0x90, 0x90]"
    by (simp add: plain_image_def)
  show "find_prologue_patterns (image_state plain_image 2 32 0) = [32]"
    by (simp add: find_prologue_patterns_def c PROLOGUE_PATTERNS_def)
       (simp add: scan_pattern.simps bytes_find.simps PUSH_BP_FOLLOWERS_def)
  show "find_call_targets (image_state plain_image 2 32 0) = ([], [])"
    by (simp add: find_call_targets_def c)
       (simp add: call_scan.simps CALL_NEAR_REL16_def CALL_FAR_PTR_def CALL_RM16_def)
qed



lemma oversized_parse:
  "parse_mz_header oversized_header_image
     = Inr (image_state oversized_header_image 65535 65535 65535)"
proof -
  have r: "read_H oversized_header_image 8 = 65535" "read_H oversized_header_image 20 = 65535"
    "read_H oversized_header_image 22 = 65535"
    by (simp_all add: oversized_header_image_def read_H_def le16_def)
  show ?thesis
    by (rule parse_image_state [of oversized_header_image, unfolded r])
       (simp_all add: oversized_header_image_def read_H_def le16_def)
qed

lemma oversized_catalog_eval:
  "main_catalog oversized_header_image =
     Inr [\<lparr>name = ''entry'', entry_linear = ''0x10FFEF'', size_bytes = - 1114069,
           stack_frame_size = 0, subsystem = ''unknown'', callers = [], int_usage = [],
           source_recording_id = [], notes' = ''Program entry point''\<rparr>]"
proof -
  have l: "length oversized_header_image = 26" by (simp add: oversized_header_image_def)
  have q: "\<forall>b\<in>set (drop (code_start (image_state oversized_header_image 65535 65535 65535))
                       oversized_header_image).
             b \<noteq> CALL_NEAR_REL16 \<and> b \<noteq> CALL_FAR_PTR \<and> b \<noteq> 0xCD"
    by (simp add: l)
  have sz: "estimate_size oversized_header_image [1114095] 0 = - 1114069"
    by (simp add: estimate_size_def py_slice_def l)
  have h: "hex_addr 1114095 = ''0x10FFEF''" by (simp add: format_eval)
  show ?thesis
    using quiet_catalog [OF oversized_parse q] by (simp add: sz h)
qed

lemma list_all_take_nth:
  "list_all P (take n w) \<Longrightarrow> n \<le> length w \<Longrightarrow> \<forall>k<n. P (w ! k)"
proof (intro allI impI)
  fix k assume a: "list_all P (take n w)" "n \<le> length w" "k < n"
  then have "take n w ! k \<in> set (take n w)" by (intro nth_mem) simp
  with a show "P (w ! k)" by (simp add: list_all_iff)
qed

lemmas ret_eval = find_ret_Cons is_ret_def RET_NEAR_def RET_NEAR_IMM_def RET_FAR_def RET_FAR_IMM_def

lemma demo_window:
  "py_slice demo_image 32 90 =
     [0x55, 0x8B, 0xEC, 0xCD, 0x21, 0xCD, 0x10, 0x90, 0xC3,
      0xE8, 0x2E, 0, 0xE8, 0x2B, 0, 0xE8, 0x28, 0, 0xE8, 0x25, 0,
      0xE8, 0x22, 0, 0xE8, 0x1F, 0, 0xE8, 0x1C, 0, 0xE8, 0x19, 0,
      0xE8, 0x16, 0, 0xE8, 0x13, 0, 0xE8, 0x10, 0,
      0xE8, 0xD3, 0xFF,
      0x9A, 0x5A, 0, 0, 0,
      0x55, 0x8B, 0xEC, 0xC3,
      0x90, 0x90, 0x90, 0x90]"
  by (simp add: py_slice_def demo_image_def)

lemma demo_window_ret:
  "8 < length (py_slice demo_image 32 90)" "is_ret (py_slice demo_image 32 90 ! 8)"
  "list_all (\<lambda>b. \<not> is_ret b) (take 8 (py_slice demo_image 32 90))"
  by (simp_all add: demo_window ret_eval)

lemma plain_window:
  "list_all (\<lambda>b. \<not> is_ret b) (py_slice plain_image 32 40)"
  by (simp add: py_slice_def plain_image_def ret_eval)

lemma demo_addresses:
  "parse_addr (entry_linear (demo_catalog ! 0)) = 32"
  "parse_addr (entry_linear (demo_catalog ! 1)) = 90"
  "length demo_catalog = 2"
  "parse_addr (entry_linear (demo_catalog ! Suc 0)) = 90"
  using parse_addr_hex_addr [of 32] parse_addr_hex_addr [of 90]
  by (simp_all add: demo_catalog_def demo_formats)

lemma plain_addresses:
  "parse_addr (entry_linear (plain_catalog ! 0)) = 32" "length plain_catalog = 1"
  "length plain_image = 40"
  using parse_addr_hex_addr [of 32]
  by (simp_all add: plain_catalog_def demo_formats plain_image_def)

subsection \<open>A return opcode more than 65535 bytes into the window\<close>

lemma find_ret_replicate:
  "\<not> is_ret x \<Longrightarrow> is_ret y \<Longrightarrow> find_ret (replicate n x @ y # ys) j = Some (j + n + 1)"
  by (induction n arbitrary: j) (simp_all add: find_ret_Cons)

lemma long_image_parts:
  "length long_image = 65569"
  "drop 32 long_image = replicate 65536 0x90 @ [0xC3]"
  "take 2 long_image = [0x4D, 0x5A]"
  by (simp_all add: long_image_def)

lemma long_parse: "parse_mz_header long_image = Inr (image_state long_image 2 32 0)"
proof -
  have r: "read_H long_image 8 = 2" "read_H long_image 20 = 32" "read_H long_image 22 = 0"
    by (simp_all add: read_H_def le16_def long_image_def)
  show ?thesis
    by (rule parse_image_state [of long_image, unfolded r])
       (simp_all add: long_image_parts read_H_def le16_def, simp_all add: long_image_def)
qed

lemma long_catalog_eval:
  "main_catalog long_image =
     Inr [\<lparr>name = ''entry'', entry_linear = ''0x20'', size_bytes = 65537, stack_frame_size = 0,
           subsystem = ''unknown'', callers = [], int_usage = [], source_recording_id = [],
           notes' = ''Program entry point''\<rparr>]"
proof -
  have q: "\<forall>b\<in>set (drop (code_start (image_state long_image 2 32 0)) long_image).
             b \<noteq> CALL_NEAR_REL16 \<and> b \<noteq> CALL_FAR_PTR \<and> b \<noteq> 0xCD"
    by (simp add: long_image_parts CALL_NEAR_REL16_def CALL_FAR_PTR_def)
  have w: "py_slice long_image 32 (length long_image) = replicate 65536 0x90 @ [0xC3]"
    by (simp add: py_slice_def long_image_parts)
  have f: "find_ret (replicate 65536 0x90 @ [0xC3]) 0 = Some (0 + 65536 + 1)"
    by (rule find_ret_replicate) (simp_all add: is_ret_def RET_NEAR_def RET_NEAR_IMM_def
        RET_FAR_def RET_FAR_IMM_def)
  have sz: "estimate_size long_image [32] 0 = 65537"
    by (simp add: estimate_size_def w f)
  show ?thesis
    using quiet_catalog [OF long_parse q] by (simp add: sz demo_formats)
qed

text \<open>The window of the entry record of this image is 65537 bytes long and its only return
  opcode is the last byte: the exported size is 65537, since the limit of 65535 is applied
  only when no return opcode is found.\<close>

lemma return_size_not_clamped:
  "length long_image = 65569
   \<and> entry_point (image_state long_image 2 32 0) < length long_image
   \<and> parse_mz_header long_image = Inr (image_state long_image 2 32 0)
   \<and> main_catalog long_image =
       Inr [\<lparr>name = ''entry'', entry_linear = ''0x20'', size_bytes = 65537,
             stack_frame_size = 0, subsystem = ''unknown'', callers = [], int_usage = [],
             source_recording_id = [], notes' = ''Program entry point''\<rparr>]"
  using long_parse long_catalog_eval by (simp add: long_image_parts)

lemma called_entry_parse:
  "parse_mz_header called_entry_image = Inr (image_state called_entry_image 2 32 0)"
proof -
  have r: "read_H called_entry_image 8 = 2" "read_H called_entry_image 20 = 32"
    "read_H called_entry_image 22 = 0"
    by (simp_all add: called_entry_image_def read_H_def le16_def)
  show ?thesis
    by (rule parse_image_state [of called_entry_image, unfolded r])
       (simp_all add: called_entry_image_def read_H_def le16_def)
qed

lemma called_entry_code:
  "drop 32 called_entry_image =
     [0xE8, 0xFD, 0xFF, 0xE8, 0xFA, 0xFF, 0xE8, 0xF7, 0xFF, 0xE8, 0xF4, 0xFF,
      0xE8, 0xF1, 0xFF, 0xE8, 0xEE, 0xFF, 0xE8, 0xEB, 0xFF, 0xE8, 0xE8, 0xFF,
      0xE8, 0xE5, 0xFF, 0xE8, 0xE2, 0xFF, 0xE8, 0xDF, 0xFF, 0xE8, 0xDC, 0xFF,
      0x90, 0x90, 0x90, 0x90]"
  "length called_entry_image = 72"
  by (simp_all add: called_entry_image_def)

lemma called_entry_calls:
  "find_call_targets (image_state called_entry_image 2 32 0)
     = ([32], [(32, [32, 35, 38, 41, 44, 47, 50, 53, 56, 59, 62, 65])])"
  by (simp add: find_call_targets_def called_entry_code)
     (simp add: call_scan.simps CALL_NEAR_REL16_def CALL_FAR_PTR_def CALL_RM16_def
        read_h_def read_H_def le16s_def le16_def record_call_def keys_of_def)

lemma called_entry_catalog_eval:
  "main_catalog called_entry_image =
     Inr [\<lparr>name = ''entry'', entry_linear = ''0x20'', size_bytes = 40, stack_frame_size = 0,
           subsystem = ''unknown'', callers = [], int_usage = [], source_recording_id = [],
           notes' = ''Program entry point''\<rparr>]"
proof -
  let ?s = "image_state called_entry_image 2 32 0"
  have pro: "find_prologue_patterns ?s = []"
    by (simp add: find_prologue_patterns_def called_entry_code PROLOGUE_PATTERNS_def)
       (simp add: scan_pattern.simps bytes_find.simps)
  have f1: "functions' (merge_candidates (add_entry ?s))
              = [(32, FunctionInfo_new ''entry'' ''0x20'' [] ''Program entry point'')]"
    by (simp add: merge_candidates_def Let_def pro called_entry_calls)
       (simp add: add_entry_def add_candidate_def keys_of_def demo_formats)
  have iu: "find_interrupt_handlers (merge_candidates (add_entry ?s)) = []"
    unfolding find_interrupt_handlers_def
    by (rule int_scan_none) (simp add: called_entry_code)
  have f2: "functions' (attribute_interrupts (merge_candidates (add_entry ?s)))
              = [(32, FunctionInfo_new ''entry'' ''0x20'' [] ''Program entry point'')]"
    by (simp add: attribute_interrupts_def iu f1)
  have sz: "estimate_size called_entry_image [32] 0 = 40"
    by (simp add: estimate_size_def called_entry_code)
       (simp add: py_slice_def called_entry_code ret_eval)
  have f3: "functions' (analyze ?s)
              = [(32, (FunctionInfo_new ''entry'' ''0x20'' [] ''Program entry point'')
                        \<lparr>size_bytes := 40\<rparr>)]"
    by (simp add: analyze_def estimate_function_sizes_def Let_def f2 keys_of_def
        estimate_one_def sz)
  show ?thesis
    by (simp add: main_catalog_eq [OF called_entry_parse] export_json_def f3 keys_of_def
        FunctionInfo_new_def)
qed

section \<open>The claims\<close>

text \<open>
  Claim C1, as amended. Constructing the analyser fails in two cases only: with a
  \<open>ValueError\<close> when the first two bytes are not \<open>MZ\<close>, and with a \<open>struct.error\<close> when the
  buffer is shorter than the 26 bytes of header fields that are read; no catalog is produced
  then. Every other buffer is accepted, with \<open>code_start\<close> the header paragraphs times 16
  and the entry point \<open>CS*16+IP\<close>, neither compared with the length of the buffer, and a
  catalog is produced.
\<close>

theorem header_parse_outcomes:
  "(take 2 buf \<noteq> [0x4D, 0x5A] \<longrightarrow> main_catalog buf = Inl ValueError)
   \<and> (take 2 buf = [0x4D, 0x5A] \<and> length buf < 26 \<longrightarrow> main_catalog buf = Inl StructError)
   \<and> (take 2 buf = [0x4D, 0x5A] \<and> 26 \<le> length buf \<longrightarrow>
        (\<exists>s. parse_mz_header buf = Inr s
            \<and> code_start s = read_H buf 8 * 16
            \<and> entry_point s = read_H buf 22 * 16 + read_H buf 20
            \<and> main_catalog buf = Inr (export_json (analyze s))))"
proof (intro conjI impI)
  assume "take 2 buf \<noteq> [0x4D, 0x5A]"
  then show "main_catalog buf = Inl ValueError"
    by (simp add: main_catalog_def DOSExeAnalyzer_init_def parse_mz_header_magic)
next
  assume "take 2 buf = [0x4D, 0x5A] \<and> length buf < 26"
  then show "main_catalog buf = Inl StructError"
    by (simp add: main_catalog_def DOSExeAnalyzer_init_def parse_mz_header_short)
next
  assume a: "take 2 buf = [0x4D, 0x5A] \<and> 26 \<le> length buf"
  then obtain s where s: "parse_mz_header buf = Inr s"
    using parse_mz_header_ok [of buf] by blast
  from parse_mz_header_Inr(4,5) [OF s] main_catalog_eq [OF s] s
  show "\<exists>s. parse_mz_header buf = Inr s
            \<and> code_start s = read_H buf 8 * 16
            \<and> entry_point s = read_H buf 22 * 16 + read_H buf 20
            \<and> main_catalog buf = Inr (export_json (analyze s))"
    by blast
qed

theorem header_parse_outcomes_witness:
  "take 2 ([] :: byte list) \<noteq> [0x4D, 0x5A] \<and> main_catalog [] = Inl ValueError
   \<and> take 2 [0x4D, 0x5A :: byte] = [0x4D, 0x5A] \<and> length [0x4D, 0x5A :: byte] < 26
   \<and> main_catalog [0x4D, 0x5A] = Inl StructError
   \<and> take 2 oversized_header_image = [0x4D, 0x5A] \<and> 26 \<le> length oversized_header_image
   \<and> (\<exists>s. parse_mz_header oversized_header_image = Inr s
          \<and> code_start s = 1048560 \<and> entry_point s = 1114095
          \<and> main_catalog oversized_header_image = Inr (export_json (analyze s)))"
proof -
  have a: "take 2 ([] :: byte list) \<noteq> [0x4D, 0x5A]" by simp
  have b: "take 2 [0x4D, 0x5A :: byte] = [0x4D, 0x5A] \<and> length [0x4D, 0x5A :: byte] < 26" by simp
  have c: "take 2 oversized_header_image = [0x4D, 0x5A] \<and> 26 \<le> length oversized_header_image"
    by (simp add: oversized_header_image_def)
  have r: "read_H oversized_header_image 8 * 16 = 1048560"
    "read_H oversized_header_image 22 * 16 + read_H oversized_header_image 20 = 1114095"
    by (simp_all add: oversized_header_image_def read_H_def le16_def)
  from header_parse_outcomes [of "[]"] a have 1: "main_catalog [] = Inl ValueError" by blast
  from header_parse_outcomes [of "[0x4D, 0x5A]"] b
  have 2: "main_catalog [0x4D, 0x5A] = Inl StructError" by blast
  from header_parse_outcomes [of oversized_header_image] c
  have 3: "\<exists>s. parse_mz_header oversized_header_image = Inr s
          \<and> code_start s = 1048560 \<and> entry_point s = 1114095
          \<and> main_catalog oversized_header_image = Inr (export_json (analyze s))"
    unfolding r by blast
  from a b c 1 2 3 show ?thesis by blast
qed

text \<open>The header of this image places \<open>code_start\<close> and the entry point beyond the end of
  the 26-byte buffer; the constructor accepts it and a catalog is exported.\<close>

theorem oversized_header_accepted:
  "length oversized_header_image = 26
   \<and> parse_mz_header oversized_header_image
        = Inr (image_state oversized_header_image 65535 65535 65535)
   \<and> code_start (image_state oversized_header_image 65535 65535 65535) = 1048560
   \<and> entry_point (image_state oversized_header_image 65535 65535 65535) = 1114095
   \<and> main_catalog oversized_header_image =
        Inr [\<lparr>name = ''entry'', entry_linear = ''0x10FFEF'', size_bytes = - 1114069,
              stack_frame_size = 0, subsystem = ''unknown'', callers = [], int_usage = [],
              source_recording_id = [], notes' = ''Program entry point''\<rparr>]"
  using oversized_parse oversized_catalog_eval by (simp add: oversized_header_image_def)




text \<open>
  Claim C3. Let the window of the record at position \<open>i\<close> of the catalog run from its entry
  address to the entry address of the next record, or to the end of the file for the last
  record. If the window holds no return opcode, \<open>size_bytes\<close> is
  \<open>min (next - this) 65535\<close>; if the first return opcode of the window is at offset
  \<open>this + j\<close>, \<open>size_bytes\<close> is \<open>(this + j) - this + 1\<close>.
\<close>

theorem size_bytes_formula:
  assumes "main_catalog buf = Inr cat" and "i < length cat"
    and "this = parse_addr (entry_linear (cat ! i))"
    and "nxt = (if i + 1 < length cat then parse_addr (entry_linear (cat ! (i + 1)))
                else length buf)"
    and "window = py_slice buf this nxt"
  shows "((\<forall>b\<in>set window. \<not> is_ret b) \<longrightarrow>
            size_bytes (cat ! i) = min (int nxt - int this) 65535)
       \<and> (\<forall>j<length window. is_ret (window ! j) \<and> (\<forall>k<j. \<not> is_ret (window ! k)) \<longrightarrow>
            size_bytes (cat ! i) = int (this + j) - int this + 1)"
proof -
  from main_catalog_Inr [OF assms(1)] obtain s where
    p: "parse_mz_header buf = Inr s" and c: "cat = export_json (analyze s)"
    by blast
  define ks where "ks = map (\<lambda>r. parse_addr (entry_linear r)) cat"
  have sz: "size_bytes (cat ! i) = estimate_size buf ks i"
    using catalog_sizes [OF p] assms(2) by (simp add: c ks_def)
  have th: "this = ks ! i" using assms(2,3) by (simp add: ks_def)
  have nx: "nxt = (if i + 1 < length ks then ks ! (i + 1) else length buf)"
    using assms(4) by (simp add: ks_def)
  have w: "window = py_slice buf (ks ! i) nxt" using assms(5) th by simp
  have "size_bytes (cat ! i) = min (int nxt - int this) 65535" if "\<forall>b\<in>set window. \<not> is_ret b"
    using estimate_size_no_ret [OF nx that [unfolded w]] by (simp add: sz th)
  moreover have "size_bytes (cat ! i) = int (this + j) - int this + 1"
    if "j < length window" "is_ret (window ! j)" "\<forall>k<j. \<not> is_ret (window ! k)" for j
    using estimate_size_ret [OF nx w that] by (simp add: sz)
  ultimately show ?thesis by blast
qed

theorem size_bytes_formula_witness:
  "main_catalog demo_image = Inr demo_catalog
   \<and> parse_addr (entry_linear (demo_catalog ! 0)) = 32
   \<and> parse_addr (entry_linear (demo_catalog ! 1)) = 90
   \<and> is_ret (py_slice demo_image 32 90 ! 8)
   \<and> list_all (\<lambda>b. \<not> is_ret b) (take 8 (py_slice demo_image 32 90))
   \<and> size_bytes (demo_catalog ! 0) = int (32 + 8) - int 32 + 1
   \<and> main_catalog plain_image = Inr plain_catalog
   \<and> parse_addr (entry_linear (plain_catalog ! 0)) = 32
   \<and> length plain_image = 40
   \<and> list_all (\<lambda>b. \<not> is_ret b) (py_slice plain_image 32 40)
   \<and> size_bytes (plain_catalog ! 0) = min (int 40 - int 32) 65535"
proof -
  have d: "size_bytes (demo_catalog ! 0) = int (32 + 8) - int 32 + 1"
  proof -
    have "\<forall>j<length (py_slice demo_image 32 90).
            is_ret (py_slice demo_image 32 90 ! j) \<and> (\<forall>k<j. \<not> is_ret (py_slice demo_image 32 90 ! k)) \<longrightarrow>
            size_bytes (demo_catalog ! 0) = int (32 + j) - int 32 + 1"
      using size_bytes_formula [of demo_image demo_catalog 0 32 90 "py_slice demo_image 32 90"]
        demo_catalog_eval
      by (simp add: demo_addresses)
    moreover have "\<forall>k<8. \<not> is_ret (py_slice demo_image 32 90 ! k)"
      using list_all_take_nth [OF demo_window_ret(3)] demo_window_ret(1) by simp
    ultimately show ?thesis
      using demo_window_ret(1,2) by blast
  qed
  have p: "size_bytes (plain_catalog ! 0) = min (int 40 - int 32) 65535"
  proof -
    have "(\<forall>b\<in>set (py_slice plain_image 32 40). \<not> is_ret b) \<longrightarrow>
            size_bytes (plain_catalog ! 0) = min (int 40 - int 32) 65535"
      using size_bytes_formula [of plain_image plain_catalog 0 32 40 "py_slice plain_image 32 40"]
        plain_catalog_eval
      by (simp add: plain_addresses)
    then show ?thesis using plain_window by (simp add: list_all_iff)
  qed
  show ?thesis
    by (intro conjI)
       (rule demo_catalog_eval demo_addresses(1,2) demo_window_ret(2,3) d plain_catalog_eval
          plain_addresses(1,3) plain_window p)+
qed

text \<open>
  Claim C4, as amended. No address that the prologue scan matches and the call-target scan
  does not appears as the entry address of an exported record, unless it is the entry
  point of the program, whose record is created unconditionally.
\<close>

theorem prologue_only_not_exported:
  assumes "parse_mz_header buf = Inr s" and "main_catalog buf = Inr cat"
    and "a \<in> set (find_prologue_patterns s)" and "a \<notin> set (fst (find_call_targets s))"
    and "a \<noteq> entry_point s"
  shows "a \<notin> (\<lambda>r. parse_addr (entry_linear r)) ` set cat \<and> hex_addr a \<notin> entry_linear ` set cat"
proof -
  have c: "cat = export_json (analyze s)"
    using assms(1,2) by (simp add: main_catalog_eq)
  note sh = catalog_shape [OF assms(1)]
  have t: "set (fst (find_call_targets s)) = snd ` set (discovered_sites s)"
    by (rule find_call_targets_set) (rule parse_mz_header_Inr(7) [OF assms(1)])
  have n: "a \<notin> set (sort (keys_of (functions' (analyze s))))"
    unfolding sh(1) using assms(4,5) t by auto
  have 1: "a \<notin> (\<lambda>r. parse_addr (entry_linear r)) ` set cat"
    using n unfolding c catalog_addresses(1) [OF assms(1), symmetric] by simp
  have "hex_addr a \<notin> set (map hex_addr (sort (keys_of (functions' (analyze s)))))"
    using n by auto
  then have 2: "hex_addr a \<notin> entry_linear ` set cat"
    unfolding c catalog_addresses(2) [OF assms(1), symmetric] by simp
  from 1 2 show ?thesis by blast
qed

text \<open>In the example, offset 82 holds a prologue that nothing calls.\<close>

theorem prologue_only_not_exported_witness:
  "parse_mz_header demo_image = Inr demo_state
   \<and> main_catalog demo_image = Inr demo_catalog
   \<and> 82 \<in> set (find_prologue_patterns demo_state)
   \<and> 82 \<notin> set (fst (find_call_targets demo_state))
   \<and> 82 \<noteq> entry_point demo_state
   \<and> 82 \<notin> (\<lambda>r. parse_addr (entry_linear r)) ` set demo_catalog
   \<and> hex_addr 82 \<notin> entry_linear ` set demo_catalog"
proof -
  have a: "82 \<in> set (find_prologue_patterns demo_state)" by (simp add: demo_prologues)
  have b: "82 \<notin> set (fst (find_call_targets demo_state))" by (simp add: demo_calls)
  have c: "82 \<noteq> entry_point demo_state" by (simp add: demo_state_def)
  from prologue_only_not_exported [OF demo_parse demo_catalog_eval a b c]
  show ?thesis using demo_parse demo_catalog_eval a b c by blast
qed

text \<open>The entry point of this image is matched by the prologue scan only, and is exported.\<close>

theorem prologue_only_entry_exported:
  "parse_mz_header plain_image = Inr (image_state plain_image 2 32 0)
   \<and> entry_point (image_state plain_image 2 32 0) = 32
   \<and> find_prologue_patterns (image_state plain_image 2 32 0) = [32]
   \<and> fst (find_call_targets (image_state plain_image 2 32 0)) = []
   \<and> main_catalog plain_image =
       Inr [\<lparr>name = ''entry'', entry_linear = ''0x20'', size_bytes = 8, stack_frame_size = 0,
             subsystem = ''unknown'', callers = [], int_usage = [], source_recording_id = [],
             notes' = ''Program entry point''\<rparr>]
   \<and> parse_addr ''0x20'' = 32"
  using plain_parse plain_scans plain_catalog_eval parse_addr_hex_addr [of 32]
  by (simp add: demo_formats plain_catalog_def)

text \<open>
  Claim C5. For every input image that the analyser accepts, the \<open>functions\<close> array of the
  exported catalog is strictly ascending in the entry addresses of its records (read back
  from their \<open>entry_linear\<close> strings), and no two records have the same \<open>entry_linear\<close>.
\<close>

theorem catalog_strictly_ascending:
  assumes "main_catalog buf = Inr cat"
  shows "sorted_wrt (<) (map (\<lambda>r. parse_addr (entry_linear r)) cat)
         \<and> distinct (map entry_linear cat)"
proof -
  from main_catalog_Inr [OF assms] obtain s where
    p: "parse_mz_header buf = Inr s" and c: "cat = export_json (analyze s)"
    by blast
  note sh = catalog_shape [OF p]
  have "sorted_wrt (<) (sort (keys_of (functions' (analyze s))))"
    using sh(2,3) by (simp add: strict_sorted_iff)
  moreover have "distinct (map hex_addr (sort (keys_of (functions' (analyze s)))))"
    using sh(2) by (simp add: distinct_map inj_on_def)
  ultimately show ?thesis
    by (simp add: c catalog_addresses [OF p])
qed

theorem catalog_strictly_ascending_witness:
  "main_catalog demo_image = Inr demo_catalog
   \<and> sorted_wrt (<) (map (\<lambda>r. parse_addr (entry_linear r)) demo_catalog)
   \<and> distinct (map entry_linear demo_catalog)"
  using catalog_strictly_ascending [OF demo_catalog_eval] demo_catalog_eval by simp

text \<open>
  Claim C6. The subsystem depends only on the set of tags in the list, not on their order
  or on the address; on the tags of a list of vectors it is the first match in the priority
  table 0x10 video, 0x21 dos, 0x16 input, 0x08 or 0x1C timer, 0x33 mouse, 0x80 or 0x81
  sound, and unknown when nothing matches; for a list whose set of tags is
  \<open>{0x10, 0x21}\<close> it is video.
\<close>

theorem classify_subsystem_order_independent:
  "(set iu = set iu' \<longrightarrow> classify_subsystem a iu = classify_subsystem a' iu')
   \<and> classify_subsystem a (map int_tag vs) = table_lookup SUBSYSTEM_TABLE (set vs)
   \<and> (set iu = {''0x10'', ''0x21''} \<longrightarrow> classify_subsystem a iu = ''video'')"
proof (intro conjI impI)
  assume "set iu = set iu'"
  then show "classify_subsystem a iu = classify_subsystem a' iu'"
    by (simp add: classify_subsystem_def)
next
  have m: "''0x10'' \<in> set (map int_tag vs) \<longleftrightarrow> 0x10 \<in> set vs"
    "''0x21'' \<in> set (map int_tag vs) \<longleftrightarrow> 0x21 \<in> set vs"
    "''0x16'' \<in> set (map int_tag vs) \<longleftrightarrow> 0x16 \<in> set vs"
    "''0x08'' \<in> set (map int_tag vs) \<longleftrightarrow> 0x08 \<in> set vs"
    "''0x1C'' \<in> set (map int_tag vs) \<longleftrightarrow> 0x1C \<in> set vs"
    "''0x33'' \<in> set (map int_tag vs) \<longleftrightarrow> 0x33 \<in> set vs"
    "''0x80'' \<in> set (map int_tag vs) \<longleftrightarrow> 0x80 \<in> set vs"
    "''0x81'' \<in> set (map int_tag vs) \<longleftrightarrow> 0x81 \<in> set vs"
    unfolding int_tag_values [symmetric] by (rule int_tag_mem)+
  show "classify_subsystem a (map int_tag vs) = table_lookup SUBSYSTEM_TABLE (set vs)"
    unfolding classify_subsystem_def m by (simp add: SUBSYSTEM_TABLE_def)
next
  assume "set iu = {''0x10'', ''0x21''}"
  then show "classify_subsystem a iu = ''video''"
    by (simp add: classify_subsystem_def)
qed

theorem classify_subsystem_order_independent_witness:
  "set [''0x21'', ''0x10''] = set [''0x10'', ''0x21'']
   \<and> classify_subsystem 32 [''0x21'', ''0x10''] = classify_subsystem 90 [''0x10'', ''0x21'']
   \<and> set [''0x21'', ''0x10''] = {''0x10'', ''0x21''}
   \<and> classify_subsystem 32 [''0x21'', ''0x10''] = ''video''
   \<and> classify_subsystem 32 (map int_tag [0x21, 0x10]) = ''video''"
proof -
  have s: "set [''0x21'', ''0x10''] = set [''0x10'', ''0x21'']"
    "set [''0x21'', ''0x10''] = {''0x10'', ''0x21''}"
    by auto
  note t = classify_subsystem_order_independent
    [of "[''0x21'', ''0x10'']" "[''0x10'', ''0x21'']" 32 90 "[0x21, 0x10]"]
  from t s have 1: "classify_subsystem 32 [''0x21'', ''0x10''] = classify_subsystem 90 [''0x10'', ''0x21'']"
    by blast
  from t s have 2: "classify_subsystem 32 [''0x21'', ''0x10''] = ''video''"
    by blast
  from t have 3: "classify_subsystem 32 (map int_tag [0x21, 0x10]) = ''video''"
    by (simp add: SUBSYSTEM_TABLE_def)
  from s 1 2 3 show ?thesis by blast
qed

text \<open>
  Claim C7, as amended. Every exported caller list has at most ten elements. For a record
  other than the entry record it is the first ten entries, in insertion order, of the list
  that \<open>call_sources\<close> holds for the record's address, and that list holds the call sites of
  the address in the order in which the sweep discovered them. The caller list of the entry
  record is empty, whatever call sites target the entry address.
\<close>

theorem exported_callers_first_ten:
  assumes "parse_mz_header buf = Inr s" and "main_catalog buf = Inr cat" and "r \<in> set cat"
    and "a = parse_addr (entry_linear r)"
    and "recorded = (case map_of (snd (find_call_targets s)) a of None \<Rightarrow> [] | Some cs \<Rightarrow> cs)"
  shows "length (callers r) \<le> 10
         \<and> callers r = take 10 (if a = entry_point s then [] else map hex_addr recorded)
         \<and> recorded = sites_of (discovered_sites s) a"
proof -
  have c: "cat = export_json (analyze s)"
    using assms(1,2) by (simp add: main_catalog_eq)
  have rec: "recorded = sites_of (discovered_sites s) a"
    unfolding assms(5) by (rule find_call_targets_sources) (rule parse_mz_header_Inr(7) [OF assms(1)])
  have "callers r = take 10 (if a = entry_point s then [] else map hex_addr recorded)"
    using catalog_callers [OF assms(1) assms(3) [unfolded c]] by (simp add: rec assms(4))
  then show ?thesis using rec by simp
qed

theorem exported_callers_first_ten_witness:
  "parse_mz_header demo_image = Inr demo_state
   \<and> main_catalog demo_image = Inr demo_catalog
   \<and> demo_catalog ! 1 \<in> set demo_catalog
   \<and> parse_addr (entry_linear (demo_catalog ! 1)) = 90
   \<and> map_of (snd (find_call_targets demo_state)) 90
        = Some [41, 44, 47, 50, 53, 56, 59, 62, 65, 68, 71, 77]
   \<and> length (callers (demo_catalog ! 1)) \<le> 10
   \<and> callers (demo_catalog ! 1)
        = take 10 (map hex_addr [41, 44, 47, 50, 53, 56, 59, 62, 65, 68, 71, 77])
   \<and> sites_of (discovered_sites demo_state) 90 = [41, 44, 47, 50, 53, 56, 59, 62, 65, 68, 71, 77]"
proof -
  have m: "demo_catalog ! 1 \<in> set demo_catalog" by (simp add: demo_catalog_def)
  have a: "90 = parse_addr (entry_linear (demo_catalog ! 1))"
    using parse_addr_hex_addr [of 90] by (simp add: demo_catalog_def demo_formats)
  have l: "map_of (snd (find_call_targets demo_state)) 90
             = Some [41, 44, 47, 50, 53, 56, 59, 62, 65, 68, 71, 77]"
    by (simp add: demo_calls)
  then have l': "[41, 44, 47, 50, 53, 56, 59, 62, 65, 68, 71, 77]
             = (case map_of (snd (find_call_targets demo_state)) 90 of None \<Rightarrow> [] | Some cs \<Rightarrow> cs)"
    by simp
  have e: "90 \<noteq> entry_point demo_state" by (simp add: demo_state_def)
  note t = exported_callers_first_ten [OF demo_parse demo_catalog_eval m a l']
  from t have t1: "length (callers (demo_catalog ! 1)) \<le> 10" by (rule conjunct1)
  from t e have t2: "callers (demo_catalog ! 1)
        = take 10 (map hex_addr [41, 44, 47, 50, 53, 56, 59, 62, 65, 68, 71, 77])"
    by (simp only: if_False)
  from t have t3: "sites_of (discovered_sites demo_state) 90
                     = [41, 44, 47, 50, 53, 56, 59, 62, 65, 68, 71, 77]"
    by (simp only:)
  show ?thesis
    by (intro conjI) (rule demo_parse demo_catalog_eval m a [symmetric] l t1 t2 t3)+
qed

text \<open>The entry point of this image is the target of twelve calls; the exported entry
  record has no callers, not the first ten call sites.\<close>

theorem called_entry_exports_no_callers:
  "parse_mz_header called_entry_image = Inr (image_state called_entry_image 2 32 0)
   \<and> entry_point (image_state called_entry_image 2 32 0) = 32
   \<and> find_call_targets (image_state called_entry_image 2 32 0)
        = ([32], [(32, [32, 35, 38, 41, 44, 47, 50, 53, 56, 59, 62, 65])])
   \<and> main_catalog called_entry_image =
       Inr [\<lparr>name = ''entry'', entry_linear = ''0x20'', size_bytes = 40, stack_frame_size = 0,
             subsystem = ''unknown'', callers = [], int_usage = [], source_recording_id = [],
             notes' = ''Program entry point''\<rparr>]"
  using called_entry_parse called_entry_calls called_entry_catalog_eval by simp

text \<open>
  Claim C8, as amended. In the pass of the prologue scan for the bare pattern 0x55, a match
  is accepted exactly when it is the last byte of the code region or the byte after it is
  one of 0x8B, 0x89, 0x83, 0x56, 0x57, 0x1E, 0x06; accepted or rejected, the scan resumes
  one byte after the position of the match, so that the pass adds every such position at
  or after its starting position.
\<close>

theorem bare_push_bp_filter:
  "(bytes_find code [0x55] pos = Some idx \<longrightarrow>
      scan_pattern cstart code [0x55] pos prologues =
        scan_pattern cstart code [0x55] (idx + 1)
          (if idx + 1 < length code \<and> code ! (idx + 1) \<notin> set PUSH_BP_FOLLOWERS
           then prologues else List.insert (cstart + idx) prologues))
   \<and> set (scan_pattern cstart code [0x55] pos prologues) =
       set prologues \<union>
       {cstart + i | i. pos \<le> i \<and> i < length code \<and> code ! i = 0x55
          \<and> (i + 1 < length code \<longrightarrow> code ! (i + 1) \<in> set PUSH_BP_FOLLOWERS)}"
proof (intro conjI impI)
  assume "bytes_find code [0x55] pos = Some idx"
  from scan_pattern_step [OF this]
  show "scan_pattern cstart code [0x55] pos prologues =
        scan_pattern cstart code [0x55] (idx + 1)
          (if idx + 1 < length code \<and> code ! (idx + 1) \<notin> set PUSH_BP_FOLLOWERS
           then prologues else List.insert (cstart + idx) prologues)"
    by (simp add: rejected_at_def)
next
  have "{i. pos \<le> i \<and> occurs_at code [0x55] i \<and> \<not> rejected_at code [0x55] i}
          = {i. pos \<le> i \<and> i < length code \<and> code ! i = 0x55
               \<and> (i + 1 < length code \<longrightarrow> code ! (i + 1) \<in> set PUSH_BP_FOLLOWERS)}"
    unfolding bare_occurrence rejected_at_def by blast
  then show "set (scan_pattern cstart code [0x55] pos prologues) =
       set prologues \<union>
       {cstart + i | i. pos \<le> i \<and> i < length code \<and> code ! i = 0x55
          \<and> (i + 1 < length code \<longrightarrow> code ! (i + 1) \<in> set PUSH_BP_FOLLOWERS)}"
    unfolding scan_pattern_set by (simp add: image_Collect)
qed

theorem bare_push_bp_filter_witness:
  "bytes_find [0x55, 0x90, 0x55, 0x8B, 0x55] [0x55] 0 = Some 0
   \<and> scan_pattern 32 [0x55, 0x90, 0x55, 0x8B, 0x55] [0x55] 0 []
       = scan_pattern 32 [0x55, 0x90, 0x55, 0x8B, 0x55] [0x55] 1 []
   \<and> 32 \<notin> set (scan_pattern 32 [0x55, 0x90, 0x55, 0x8B, 0x55] [0x55] 0 [])
   \<and> 34 \<in> set (scan_pattern 32 [0x55, 0x90, 0x55, 0x8B, 0x55] [0x55] 0 [])
   \<and> 36 \<in> set (scan_pattern 32 [0x55, 0x90, 0x55, 0x8B, 0x55] [0x55] 0 [])"
proof -
  let ?code = "[0x55, 0x90, 0x55, 0x8B, 0x55] :: byte list"
  have f: "bytes_find ?code [0x55] 0 = Some 0"
    by (simp add: bytes_find.simps)
  note t = bare_push_bp_filter [of ?code 0 0 32 "[]"]
  from t f have 1: "scan_pattern 32 ?code [0x55] 0 [] = scan_pattern 32 ?code [0x55] 1 []"
    by (simp add: PUSH_BP_FOLLOWERS_def)
  from t have s: "set (scan_pattern 32 ?code [0x55] 0 []) =
       {32 + i | i. i < length ?code \<and> ?code ! i = 0x55
          \<and> (i + 1 < length ?code \<longrightarrow> ?code ! (i + 1) \<in> set PUSH_BP_FOLLOWERS)}"
    by simp
  have 2: "32 \<notin> set (scan_pattern 32 ?code [0x55] 0 [])"
    unfolding s by (simp add: PUSH_BP_FOLLOWERS_def)
  have 3: "34 \<in> set (scan_pattern 32 ?code [0x55] 0 [])"
    unfolding s by (intro CollectI exI [of _ 2]) (simp add: PUSH_BP_FOLLOWERS_def)
  have 4: "36 \<in> set (scan_pattern 32 ?code [0x55] 0 [])"
    unfolding s by (intro CollectI exI [of _ 4]) (simp add: PUSH_BP_FOLLOWERS_def)
  from f 1 2 3 4 show ?thesis by blast
qed

text \<open>The code region of this image is the single byte 0x55: the bare pattern matches at
  its last byte, no byte follows, and the match is accepted.\<close>

theorem trailing_push_bp_accepted:
  "length trailing_push_image = 33
   \<and> parse_mz_header trailing_push_image = Inr (image_state trailing_push_image 2 32 0)
   \<and> drop (code_start (image_state trailing_push_image 2 32 0)) trailing_push_image = [0x55]
   \<and> bytes_find [0x55] [0x55] 0 = Some 0
   \<and> scan_pattern 32 [0x55] [0x55] 0 [] = [32]
   \<and> find_prologue_patterns (image_state trailing_push_image 2 32 0) = [32]"
proof -
  have l: "length trailing_push_image = 33" by (simp add: trailing_push_image_def)
  have r: "read_H trailing_push_image 8 = 2" "read_H trailing_push_image 20 = 32"
    "read_H trailing_push_image 22 = 0"
    by (simp_all add: trailing_push_image_def read_H_def le16_def)
  have p: "parse_mz_header trailing_push_image = Inr (image_state trailing_push_image 2 32 0)"
    by (rule parse_image_state [of trailing_push_image, unfolded r])
       (simp_all add: trailing_push_image_def read_H_def le16_def)
  have c: "drop (code_start (image_state trailing_push_image 2 32 0)) trailing_push_image = [0x55]"
    by (simp add: trailing_push_image_def)
  have f: "bytes_find [0x55] [0x55] 0 = Some 0" by (simp add: bytes_find.simps)
  have s: "scan_pattern 32 [0x55] [0x55] 0 [] = [32]"
    by (simp add: scan_pattern.simps bytes_find.simps)
  have c': "drop 32 trailing_push_image = [0x55]"
    by (simp add: trailing_push_image_def)
  have fp: "find_prologue_patterns (image_state trailing_push_image 2 32 0) = [32]"
    by (simp add: find_prologue_patterns_def c' PROLOGUE_PATTERNS_def)
       (simp add: scan_pattern.simps bytes_find.simps)
  from l p c f s fp show ?thesis by blast
qed

text \<open>
  Claim C9. The exported catalog always holds a record at the entry address, and the record
  at that address is named \<open>entry\<close>, has an empty caller list and the note
  \<open>Program entry point\<close>, whether or not the entry address is also a call target with
  recorded call sites: merging never replaces a record that is present.
\<close>

theorem entry_record_unaffected_by_calls:
  assumes "parse_mz_header buf = Inr s" and "main_catalog buf = Inr cat"
  shows "hex_addr (entry_point s) \<in> entry_linear ` set cat
         \<and> (\<forall>r\<in>set cat. entry_linear r = hex_addr (entry_point s) \<longrightarrow>
               name r = ''entry'' \<and> callers r = [] \<and> notes' r = ''Program entry point'')"
proof -
  have c: "cat = export_json (analyze s)"
    using assms by (simp add: main_catalog_eq)
  note sh = catalog_shape [OF assms(1)]
  have "hex_addr (entry_point s) \<in> set (map hex_addr (sort (keys_of (functions' (analyze s)))))"
    using sh(1) by simp
  then have "hex_addr (entry_point s) \<in> entry_linear ` set cat"
    unfolding c catalog_addresses(2) [OF assms(1), symmetric] by simp
  moreover have "name r = ''entry'' \<and> callers r = [] \<and> notes' r = ''Program entry point''"
    if "r \<in> set cat" and e: "entry_linear r = hex_addr (entry_point s)" for r
  proof -
    from catalog_record [OF assms(1) that(1) [unfolded c]]
    obtain i ints sub where
      a: "parse_addr (entry_linear r) = sort (keys_of (functions' (analyze s))) ! i"
      and b: "r = (merged_record s (sort (keys_of (functions' (analyze s))) ! i))
                \<lparr>size_bytes := estimate_size buf (sort (keys_of (functions' (analyze s)))) i,
                 subsystem := sub,
                 callers := take 10 (callers (merged_record s (sort (keys_of (functions' (analyze s))) ! i))),
                 int_usage := ints\<rparr>"
      by blast
    from a e have k: "sort (keys_of (functions' (analyze s))) ! i = entry_point s" by simp
    show ?thesis
      by (subst b, subst b, subst b) (simp add: k merged_record_notes)
  qed
  ultimately show ?thesis by blast
qed

text \<open>In the example the entry point 32 is a call target, with the call site 74.\<close>

theorem entry_record_unaffected_by_calls_witness:
  "parse_mz_header demo_image = Inr demo_state
   \<and> main_catalog demo_image = Inr demo_catalog
   \<and> entry_point demo_state \<in> set (fst (find_call_targets demo_state))
   \<and> map_of (snd (find_call_targets demo_state)) (entry_point demo_state) = Some [74]
   \<and> hex_addr (entry_point demo_state) \<in> entry_linear ` set demo_catalog
   \<and> entry_linear (demo_catalog ! 0) = hex_addr (entry_point demo_state)
   \<and> name (demo_catalog ! 0) = ''entry''
   \<and> callers (demo_catalog ! 0) = []
   \<and> notes' (demo_catalog ! 0) = ''Program entry point''"
proof -
  note t = entry_record_unaffected_by_calls [OF demo_parse demo_catalog_eval]
  have e: "entry_point demo_state = 32" by (simp add: demo_state_def)
  have m: "demo_catalog ! 0 \<in> set demo_catalog" by (simp add: demo_catalog_def)
  have l: "entry_linear (demo_catalog ! 0) = hex_addr (entry_point demo_state)"
    by (simp add: demo_catalog_def e demo_formats)
  from t m l have "name (demo_catalog ! 0) = ''entry'' \<and> callers (demo_catalog ! 0) = []
      \<and> notes' (demo_catalog ! 0) = ''Program entry point''"
    by blast
  moreover have "entry_point demo_state \<in> set (fst (find_call_targets demo_state))"
    "map_of (snd (find_call_targets demo_state)) (entry_point demo_state) = Some [74]"
    by (simp_all add: demo_calls e)
  ultimately show ?thesis
    using t l demo_parse demo_catalog_eval by blast
qed

text \<open>
  Claim C10. Every element of an exported caller list is the hexadecimal offset of a byte
  of the file that lies in the code region and holds the opcode of a near or far call
  whose target the sweep resolved to the record's address; so every caller address is at
  least \<open>code_start\<close>.
\<close>

theorem exported_callers_are_call_sites:
  assumes "parse_mz_header buf = Inr s" and "main_catalog buf = Inr cat" and "r \<in> set cat"
    and "c \<in> set (callers r)"
  shows "(parse_addr c, parse_addr (entry_linear r)) \<in> set (discovered_sites s)
         \<and> c = hex_addr (parse_addr c)
         \<and> code_start s \<le> parse_addr c \<and> parse_addr c < length buf
         \<and> (buf ! parse_addr c = CALL_NEAR_REL16 \<or> buf ! parse_addr c = CALL_FAR_PTR)"
proof -
  have cat: "cat = export_json (analyze s)"
    using assms(1,2) by (simp add: main_catalog_eq)
  let ?a = "parse_addr (entry_linear r)"
  from catalog_callers [OF assms(1) assms(3) [unfolded cat]] assms(4)
  have "c \<in> set (map hex_addr (sites_of (discovered_sites s) ?a))"
    by (auto split: if_splits dest: in_set_takeD)
  then obtain src where src: "c = hex_addr src" "src \<in> set (sites_of (discovered_sites s) ?a)"
    by auto
  then have site: "(src, ?a) \<in> set (discovered_sites s)"
    by (auto simp: sites_of_def)
  note pr = discovered_sites_props [OF site]
  have d: "data s = buf" by (rule parse_mz_header_Inr(3) [OF assms(1)])
  show ?thesis
    using site pr src(1) by (simp add: d)
qed

theorem exported_callers_are_call_sites_witness:
  "parse_mz_header demo_image = Inr demo_state
   \<and> main_catalog demo_image = Inr demo_catalog
   \<and> demo_catalog ! 1 \<in> set demo_catalog
   \<and> ''0x29'' \<in> set (callers (demo_catalog ! 1))
   \<and> parse_addr ''0x29'' = 41
   \<and> parse_addr (entry_linear (demo_catalog ! 1)) = 90
   \<and> (41, 90) \<in> set (discovered_sites demo_state)
   \<and> code_start demo_state \<le> 41 \<and> 41 < length demo_image
   \<and> demo_image ! 41 = CALL_NEAR_REL16"
proof -
  have m: "demo_catalog ! 1 \<in> set demo_catalog" by (simp add: demo_catalog_def)
  have c: "''0x29'' \<in> set (callers (demo_catalog ! 1))" by (simp add: demo_catalog_def)
  have h: "hex_addr 41 = ''0x29''" by (simp add: format_eval)
  have a: "parse_addr ''0x29'' = 41"
    using parse_addr_hex_addr [of 41] by (simp only: h)
  have b: "parse_addr (entry_linear (demo_catalog ! 1)) = 90"
    using parse_addr_hex_addr [of 90] by (simp add: demo_catalog_def demo_formats)
  have o: "demo_image ! 41 = CALL_NEAR_REL16"
    by (simp add: demo_image_def CALL_NEAR_REL16_def)
  note t = exported_callers_are_call_sites [OF demo_parse demo_catalog_eval m c, unfolded a b]
  from t have t1: "(41, 90) \<in> set (discovered_sites demo_state)"
    and t2: "code_start demo_state \<le> 41" and t3: "41 < length demo_image"
    by blast+
  show ?thesis
    by (intro conjI) (rule demo_parse demo_catalog_eval m c a b o t1 t2 t3)+
qed


end
